theory Spec2Isabelle
  imports Main "HOL-Library.Sublist"
begin

section \<open>The flowchart database (src/diagrams/flowchart/flowDb.js)\<close>

text \<open>
  The module keeps one mutable session: the registries of vertices, edges, classes and
  subgraphs, the tooltips, the layout direction and the traversal table of the subgraph
  indexer. Every exported function is modelled as a function from the session state to
  an outcome and the state it leaves behind. An exception of the JavaScript run time
  (reading a property of \<open>undefined\<close>) is the outcome \<open>Threw TypeError\<close>; the state
  beside it is the state at the moment of the throw, since the mutations made before
  an exception stay in the module's variables.

  Modelling conventions:
  \<^item> a string is a \<open>char list\<close> of code units below 256;
  \<^item> an argument that may be \<open>undefined\<close> is an \<open>option\<close> (\<open>None\<close> is \<open>undefined\<close>);
    the style and class lists of \<open>addVertex\<close> and \<open>addClass\<close>, which the code also tests
    against \<open>null\<close>, have the three-valued type \<open>js\<close>;
  \<^item> an object used as a dictionary (\<open>vertices\<close>, \<open>classes\<close>, \<open>tooltips\<close>,
    \<open>subGraphLookup\<close>, the table \<open>prims.string\<close> of \<open>uniq\<close>) is a finite map that holds
    its own properties. A read \<open>registry[id]\<close> also finds the properties that the object
    inherits from its prototype (\<open>constructor\<close>, \<open>toString\<close>, \<open>__proto__\<close>, ..., and
    \<open>length\<close> of an array): every access by a computed key is modelled with the test
    whether the key is such a name. Where the code then only fails or does nothing, the
    model says so; where it reads or writes an object of the run time, the outcome is
    \<open>Beyond\<close>;
  \<^item> an object that is reachable under two names is kept in a store and referred to by
    its address: the subgraph records (the list \<open>subGraphs\<close> is the store,
    \<open>subGraphLookup\<close> holds positions in it) and the style arrays handed to
    \<open>updateLink\<close> (the store \<open>styleArrays\<close>).
\<close>

subsection \<open>Outcomes\<close>

datatype error = TypeError

text \<open>
  \<open>Beyond\<close>: the call has read a value from, or written to, an object of the JavaScript
  run time (a prototype, one of its functions, the length of an array). These objects
  are not part of the state, and the model does not describe what the call does.
\<close>

datatype 'a outcome = Returned 'a | Threw error | Beyond

datatype 'a js = Undefined | Null | Val 'a

subsection \<open>Strings\<close>

text \<open>The class \<open>\d\<close> of a regular expression: the ten decimal digits.\<close>

definition digit :: "char \<Rightarrow> bool" where
  "digit c = (c \<in> set ''0123456789'')"

text \<open>
  White space as \<open>String.prototype.trim\<close> and the class \<open>\s\<close> see it, among the code
  units below 256: tab, line feed, vertical tab, form feed, carriage return, space and
  the no-break space.
\<close>

definition isSpace :: "char \<Rightarrow> bool" where
  "isSpace c = (c \<in> {CHR 0x09, CHR 0x0A, CHR 0x0B, CHR 0x0C, CHR 0x0D, CHR 0x20, CHR 0xA0})"

definition trim :: "string \<Rightarrow> string" where
  "trim s = rev (dropWhile isSpace (rev (dropWhile isSpace s)))"

text \<open>
  \<open>s.substring(a, b)\<close>: the arguments are clamped to the length and swapped when the
  first is the larger one.
\<close>

definition substring :: "string \<Rightarrow> nat \<Rightarrow> nat \<Rightarrow> string" where
  "substring s a b = take (max a b - min a b) (drop (min a b) s)"

text \<open>
  The inline step \<open>if (id[0].match(/\d/)) id = 's' + id\<close>. On the empty string \<open>id[0]\<close>
  is \<open>undefined\<close> and the call of \<open>match\<close> throws.
\<close>

definition normalizeId :: "string \<Rightarrow> string outcome" where
  "normalizeId id0 =
     (case id0 of
        [] \<Rightarrow> Threw TypeError
      | c # cs \<Rightarrow> Returned (if digit c then CHR ''s'' # id0 else id0))"

text \<open>
  The identifier normalizer of the specification, as a pure function: a first character
  that is a decimal digit gets the prefix \<open>s\<close>.
\<close>

definition normalized :: "string \<Rightarrow> string" where
  "normalized id0 = (if id0 \<noteq> [] \<and> digit (hd id0) then CHR ''s'' # id0 else id0)"

text \<open>
  The property names that every object inherits from \<open>Object.prototype\<close> (ECMAScript
  with its annex B): an empty object \<open>{}\<close> answers to exactly these keys.
\<close>

definition objectKeys :: "string list" where
  "objectKeys =
     [''constructor'', ''hasOwnProperty'', ''isPrototypeOf'', ''propertyIsEnumerable'',
      ''toLocaleString'', ''toString'', ''valueOf'', ''__defineGetter__'',
      ''__defineSetter__'', ''__lookupGetter__'', ''__lookupSetter__'', ''__proto__'']"

text \<open>
  The keys that an empty array \<open>[]\<close> answers to: its own \<open>length\<close>, the names it inherits
  from \<open>Array.prototype\<close> (ECMAScript 2025, and some that engines had before) and those
  of \<open>Object.prototype\<close>. The list is used only to decide that a call is \<open>Beyond\<close>, so
  a name too many does no harm.
\<close>

definition arrayKeys :: "string list" where
  "arrayKeys =
     [''length'', ''at'', ''concat'', ''copyWithin'', ''entries'', ''every'', ''fill'',
      ''filter'', ''find'', ''findIndex'', ''findLast'', ''findLastIndex'', ''flat'',
      ''flatMap'', ''forEach'', ''includes'', ''indexOf'', ''join'', ''keys'',
      ''lastIndexOf'', ''map'', ''pop'', ''push'', ''reduce'', ''reduceRight'', ''reverse'',
      ''shift'', ''slice'', ''some'', ''sort'', ''splice'', ''toReversed'', ''toSorted'',
      ''toSpliced'', ''unshift'', ''values'', ''with'', ''group'', ''groupToMap'',
      ''groupBy'', ''groupByToMap'', ''toSource'', ''watch'', ''unwatch'']
     @ objectKeys"

text \<open>Whether a container answers to a key by itself; the flag says that it is an array.\<close>

definition answers :: "bool \<Rightarrow> string \<Rightarrow> bool" where
  "answers isArray key = (if isArray then key \<in> set arrayKeys else key \<in> set objectKeys)"

text \<open>
  The quote stripping of \<open>addVertex\<close> and \<open>addLink\<close>:
  \<open>if (txt[0] === '"' && txt[txt.length - 1] === '"') txt = txt.substring(1, txt.length - 1)\<close>.
\<close>

definition stripQuotes :: "string \<Rightarrow> string" where
  "stripQuotes txt =
     (if txt \<noteq> [] \<and> hd txt = CHR 0x22 \<and> last txt = CHR 0x22
      then substring txt 1 (length txt - 1) else txt)"

text \<open>\<open>txt.replace(/pat/g, rep)\<close> for a pattern without operators.\<close>

fun replaceAll :: "string \<Rightarrow> string \<Rightarrow> string \<Rightarrow> string" where
  "replaceAll pat rep [] = []"
| "replaceAll pat rep (c # cs) =
     (if pat \<noteq> [] \<and> prefix pat (c # cs)
      then rep @ replaceAll pat rep (drop (length pat) (c # cs))
      else c # replaceAll pat rep cs)"

text \<open>
  The tail \<open>\S*?\/>\<close> of the pattern \<open><br\S*?\/>\<close>: the shortest run of characters that
  are no white space and are followed by \<open>/>\<close>. The result is what follows the match.
\<close>

fun brTail :: "string \<Rightarrow> string option" where
  "brTail [] = None"
| "brTail (c # cs) =
     (if prefix ''/>'' (c # cs) then Some (drop 2 (c # cs))
      else if isSpace c then None
      else brTail cs)"

lemma brTail_shorter: "brTail s = Some r \<Longrightarrow> length r < length s"
  by (induction s) (auto split: if_splits)

function replaceBrTags :: "string \<Rightarrow> string" where
  "replaceBrTags [] = []"
| "replaceBrTags (c # cs) =
     (if prefix ''<br'' (c # cs) then
        (case brTail (drop 3 (c # cs)) of
           Some r \<Rightarrow> ''#br#'' @ replaceBrTags r
         | None \<Rightarrow> c # replaceBrTags cs)
      else c # replaceBrTags cs)"
  by pat_completeness auto
termination
proof (relation "measure length")
  show "wf (measure length)" by simp
next
  fix c cs r
  assume "prefix ''<br'' (c # cs)" and r: "brTail (drop 3 (c # cs)) = Some r"
  have "length r < length (drop 3 (c # cs))" using r by (rule brTail_shorter)
  then show "(r, c # cs) \<in> measure length" by simp
qed simp_all

text \<open>The function \<open>sanitize\<close>, with \<open>config.securityLevel\<close> as a parameter.\<close>

definition sanitize :: "string \<Rightarrow> string \<Rightarrow> string" where
  "sanitize level text =
     (if level \<noteq> ''loose'' then
        replaceAll ''#br#'' ''<br/>''
          (replaceAll ''='' ''&equals;''
            (replaceAll ''>'' ''&gt;''
              (replaceAll ''<'' ''&lt;''
                (replaceBrTags (replaceAll ''<br>'' ''#br#'' text)))))
      else text)"

text \<open>\<open>ids.split(',')\<close>: the fields between commas; the empty string has one empty field.\<close>

fun split_comma :: "string \<Rightarrow> string list" where
  "split_comma [] = [[]]"
| "split_comma (c # cs) =
     (if c = CHR '','' then [] # split_comma cs
      else (case split_comma cs of
              w # ws \<Rightarrow> (c # w) # ws
            | [] \<Rightarrow> [[c]]))"

text \<open>The decimal numeral of a counter, as \<open>'subGraph' + subCount\<close> prints it.\<close>

fun decimal :: "nat \<Rightarrow> string" where
  "decimal n =
     (if n < 10 then [''0123456789'' ! n]
      else decimal (n div 10) @ [''0123456789'' ! (n mod 10)])"

declare decimal.simps [simp del]

subsection \<open>The data model\<close>

text \<open>A vertex record \<open>{ id, styles, classes, text?, type?, link? }\<close>.\<close>

record vertex =
  v_id :: string
  v_text :: "string option"
  v_type :: "string option"
  v_styles :: "string list"
  v_classes :: "string list"
  v_link :: "string option"

text \<open>
  The type descriptor the parser hands to \<open>addLink\<close>, and an edge record. The style of
  an edge is the address of a style array in the store \<open>styleArrays\<close>.
\<close>

record linkType =
  t_type :: "string option"
  t_stroke :: "string option"
  t_text :: "string option"

record edge =
  e_start :: string
  e_end :: string
  e_type :: "string option"
  e_text :: string
  e_stroke :: "string option"
  e_style :: "nat option"
  e_interpolate :: "string option"

record classDef =
  c_id :: string
  c_styles :: "string list"

record subGraph =
  sg_id :: string
  sg_nodes :: "string list"
  sg_title :: string
  sg_classes :: "string list"

text \<open>
  The entries of \<open>funs\<close>, the functions to run after rendering: \<open>setupToolTips\<close> and the
  click bindings, each the closure over a vertex id and the name of a function.
\<close>

datatype binding = SetupToolTips | ClickBinding string string

text \<open>An entry of the position lists of \<open>updateLink\<close> and \<open>updateLinkInterpolate\<close>.\<close>

datatype position = Default | Idx int

text \<open>The result object \<open>{ result, count }\<close> of \<open>indexNodes2\<close>.\<close>

record walk =
  result :: bool
  count :: nat

text \<open>
  The variables of the module. \<open>securityLevel\<close> is \<open>config.securityLevel\<close>, read once
  when the module is loaded. \<open>defaultInterpolate\<close> and \<open>defaultStyle\<close> are the properties
  of those names on the array \<open>edges\<close>. \<open>classes\<close> is an array when the module is loaded
  (\<open>let classes = []\<close>) and an object after \<open>clear\<close> (\<open>classes = {}\<close>); \<open>tooltips\<close> is
  an object first and an array after \<open>clear\<close> (\<open>tooltips = []\<close>): the flags
  \<open>classesArray\<close> and \<open>tooltipsArray\<close> say which. \<open>beyond\<close> is no variable of the module:
  it is set by every call whose outcome is \<open>Beyond\<close>, and from then on the record need
  no longer describe the session.
\<close>

record state =
  securityLevel :: string
  vertices :: "string \<rightharpoonup> vertex"
  edges :: "edge list"
  defaultInterpolate :: "string option"
  defaultStyle :: "nat option"
  styleArrays :: "nat \<Rightarrow> string list"
  classes :: "string \<rightharpoonup> classDef"
  classesArray :: bool
  subGraphs :: "subGraph list"
  subGraphLookup :: "string \<rightharpoonup> nat"
  tooltips :: "string \<rightharpoonup> string"
  tooltipsArray :: bool
  subCount :: nat
  firstGraphFlag :: bool
  direction :: "string option"
  funs :: "binding list"
  secCount :: int
  posCrossRef :: "int \<rightharpoonup> nat"
  beyond :: bool

text \<open>The state after the module is loaded, for a given security level.\<close>

definition init :: "string \<Rightarrow> state" where
  "init level =
     \<lparr> securityLevel = level, vertices = Map.empty, edges = [],
       defaultInterpolate = None, defaultStyle = None, styleArrays = (\<lambda>r. []),
       classes = Map.empty, classesArray = True, subGraphs = [],
       subGraphLookup = Map.empty, tooltips = Map.empty, tooltipsArray = False,
       subCount = 0, firstGraphFlag = True, direction = None,
       funs = [SetupToolTips], secCount = - 1, posCrossRef = Map.empty,
       beyond = False \<rparr>"

text \<open>The state beside the outcome \<open>Beyond\<close>.\<close>

definition leave :: "state \<Rightarrow> state" where
  "leave st = st\<lparr>beyond := True\<rparr>"

text \<open>\<open>xs.forEach(f)\<close> for a callback that changes the state and may throw.\<close>

fun forEach :: "('a \<Rightarrow> state \<Rightarrow> unit outcome \<times> state) \<Rightarrow> 'a list \<Rightarrow> state
    \<Rightarrow> unit outcome \<times> state" where
  "forEach f [] st = (Returned (), st)"
| "forEach f (x # xs) st =
     (case f x st of
        (Returned u, st') \<Rightarrow> forEach f xs st'
      | (Threw e, st') \<Rightarrow> (Threw e, st')
      | (Beyond, st') \<Rightarrow> (Beyond, st'))"

subsection \<open>Vertices\<close>

text \<open>
  For an id that the object \<open>vertices\<close> answers to by itself, \<open>typeof vertices[id]\<close> is not
  \<open>'undefined'\<close>: no record is made, and \<open>vertices[id].text = ...\<close> writes to the inherited
  object.
\<close>

definition addVertex :: "string option \<Rightarrow> string option \<Rightarrow> string option \<Rightarrow> string list js
    \<Rightarrow> string list js \<Rightarrow> state \<Rightarrow> unit outcome \<times> state" where
  "addVertex raw_id text type style cls st =
     (case raw_id of
        None \<Rightarrow> (Returned (), st)
      | Some raw \<Rightarrow>
          if length (trim raw) = 0 then (Returned (), st)
          else
            (case normalizeId raw of
               Threw e \<Rightarrow> (Threw e, st)
             | Beyond \<Rightarrow> (Beyond, st)
             | Returned id1 \<Rightarrow>
                 if answers False id1 then (Beyond, leave st)
                 else
                 let v0 = (case vertices st id1 of
                             None \<Rightarrow> \<lparr> v_id = id1, v_text = None, v_type = None,
                                       v_styles = [], v_classes = [], v_link = None \<rparr>
                           | Some v \<Rightarrow> v);
                     v1 = (case text of
                             Some t \<Rightarrow>
                               v0\<lparr>v_text := Some (stripQuotes (sanitize (securityLevel st) (trim t)))\<rparr>
                           | None \<Rightarrow>
                               if v_text v0 = None \<or> v_text v0 = Some []
                               then v0\<lparr>v_text := Some raw\<rparr> else v0);
                     v2 = (case type of Some ty \<Rightarrow> v1\<lparr>v_type := Some ty\<rparr> | None \<Rightarrow> v1);
                     v3 = (case style of
                             Val ss \<Rightarrow> v2\<lparr>v_styles := v_styles v2 @ ss\<rparr>
                           | Null \<Rightarrow> v2 | Undefined \<Rightarrow> v2);
                     v4 = (case cls of
                             Val cs \<Rightarrow> v3\<lparr>v_classes := v_classes v3 @ cs\<rparr>
                           | Null \<Rightarrow> v3 | Undefined \<Rightarrow> v3)
                 in (Returned (), st\<lparr>vertices := (vertices st)(id1 \<mapsto> v4)\<rparr>)))"

subsection \<open>Edges\<close>

text \<open>
  \<open>start[0]\<close> and \<open>end[0]\<close> throw on \<open>undefined\<close>, and the call of \<open>match\<close> throws on the
  empty string; \<open>type.text\<close> throws when the type descriptor is \<open>undefined\<close>. The
  parameter \<open>linktext\<close> is assigned \<open>type.text\<close> before it is read.
\<close>

definition edgeText :: "string \<Rightarrow> linkType \<Rightarrow> string" where
  "edgeText level ty =
     (case t_text ty of
        None \<Rightarrow> []
      | Some linktext \<Rightarrow> stripQuotes (sanitize level (trim linktext)))"

definition addLink :: "string option \<Rightarrow> string option \<Rightarrow> linkType option \<Rightarrow> string option
    \<Rightarrow> state \<Rightarrow> unit outcome \<times> state" where
  "addLink raw_start raw_end type linktext st =
     (case raw_start of
        None \<Rightarrow> (Threw TypeError, st)
      | Some s \<Rightarrow>
          (case normalizeId s of
             Threw e \<Rightarrow> (Threw e, st)
           | Beyond \<Rightarrow> (Beyond, st)
           | Returned start \<Rightarrow>
               (case raw_end of
                  None \<Rightarrow> (Threw TypeError, st)
                | Some t \<Rightarrow>
                    (case normalizeId t of
                       Threw e \<Rightarrow> (Threw e, st)
                     | Beyond \<Rightarrow> (Beyond, st)
                     | Returned end1 \<Rightarrow>
                         (case type of
                            None \<Rightarrow> (Threw TypeError, st)
                          | Some ty \<Rightarrow>
                              let edge = \<lparr> e_start = start, e_end = end1, e_type = t_type ty,
                                           e_text = edgeText (securityLevel st) ty,
                                           e_stroke = t_stroke ty, e_style = None,
                                           e_interpolate = None \<rparr>
                              in (Returned (), st\<lparr>edges := edges st @ [edge]\<rparr>))))))"

text \<open>
  \<open>edges[pos]\<close> is \<open>undefined\<close> for a position outside the array, and the assignment to
  its property throws.
\<close>

definition inRange :: "int \<Rightarrow> 'a list \<Rightarrow> bool" where
  "inRange i xs = (0 \<le> i \<and> i < int (length xs))"

definition updateLinkInterpolate1 :: "string option \<Rightarrow> position \<Rightarrow> state
    \<Rightarrow> unit outcome \<times> state" where
  "updateLinkInterpolate1 interp pos st =
     (case pos of
        Default \<Rightarrow> (Returned (), st\<lparr>defaultInterpolate := interp\<rparr>)
      | Idx i \<Rightarrow>
          if inRange i (edges st)
          then (Returned (),
                st\<lparr>edges := (edges st)[nat i := (edges st ! nat i)\<lparr>e_interpolate := interp\<rparr>]\<rparr>)
          else (Threw TypeError, st))"

definition updateLinkInterpolate :: "position list \<Rightarrow> string option \<Rightarrow> state
    \<Rightarrow> unit outcome \<times> state" where
  "updateLinkInterpolate positions interp st = forEach (updateLinkInterpolate1 interp) positions st"

text \<open>
  Modelled from the spec: \<open>utils.isSubstringInArray\<close> is imported from \<open>../../utils\<close>, which
  is not among the sources. The specification says of its use that the style list gets a
  \<open>fill:none\<close> declaration "unless a fill is already present": the function returns the
  index of the first entry that contains the string (\<open>contains\<close>: somewhere in the entry,
  as \<open>entry.match(str)\<close> finds it), and -1 when there is none.
\<close>

definition contains :: "string \<Rightarrow> string \<Rightarrow> bool" where
  "contains str a = (\<exists>t \<in> set (suffixes a). prefix str t)"

fun isSubstringFrom :: "int \<Rightarrow> string \<Rightarrow> string list \<Rightarrow> int" where
  "isSubstringFrom i str [] = - 1"
| "isSubstringFrom i str (a # arr) =
     (if contains str a then i else isSubstringFrom (i + 1) str arr)"

definition isSubstringInArray :: "string \<Rightarrow> string list \<Rightarrow> int" where
  "isSubstringInArray str arr = isSubstringFrom 0 str arr"

text \<open>
  \<open>style\<close> is the address of the array the caller passes. \<open>style.push('fill:none')\<close>
  changes that array, and with it every edge and default that already refers to it.
\<close>

definition updateLink1 :: "nat \<Rightarrow> position \<Rightarrow> state \<Rightarrow> unit outcome \<times> state" where
  "updateLink1 style pos st =
     (case pos of
        Default \<Rightarrow> (Returned (), st\<lparr>defaultStyle := Some style\<rparr>)
      | Idx i \<Rightarrow>
          let st1 = (if isSubstringInArray ''fill'' (styleArrays st style) = - 1
                     then st\<lparr>styleArrays := (styleArrays st)(style := styleArrays st style @ [''fill:none''])\<rparr>
                     else st)
          in if inRange i (edges st1)
             then (Returned (),
                   st1\<lparr>edges := (edges st1)[nat i := (edges st1 ! nat i)\<lparr>e_style := Some style\<rparr>]\<rparr>)
             else (Threw TypeError, st1))"

definition updateLink :: "position list \<Rightarrow> nat \<Rightarrow> state \<Rightarrow> unit outcome \<times> state" where
  "updateLink positions style st = forEach (updateLink1 style) positions st"

subsection \<open>Classes\<close>

text \<open>
  For an id that the container \<open>classes\<close> answers to by itself, \<open>typeof classes[id]\<close> is
  not \<open>'undefined'\<close>, and the styles would be pushed onto a property of the inherited
  value.
\<close>

definition addClass :: "string \<Rightarrow> string list js \<Rightarrow> state \<Rightarrow> unit outcome \<times> state" where
  "addClass id1 style st =
     (if answers (classesArray st) id1 then (Beyond, leave st)
      else
        let c0 = (case classes st id1 of
                    None \<Rightarrow> \<lparr> c_id = id1, c_styles = [] \<rparr>
                  | Some c \<Rightarrow> c);
            c1 = (case style of
                    Val ss \<Rightarrow> c0\<lparr>c_styles := c_styles c0 @ ss\<rparr>
                  | Null \<Rightarrow> c0 | Undefined \<Rightarrow> c0)
        in (Returned (), st\<lparr>classes := (classes st)(id1 \<mapsto> c1)\<rparr>))"

subsection \<open>Direction\<close>

text \<open>
  Each test is \<open>direction.match(...)\<close> on the variable \<open>direction\<close>, which an earlier test
  may already have overwritten. An unanchored \<open>/.*</\<close> matches exactly the strings that
  contain \<open><\<close>.
\<close>

definition setDirection :: "string option \<Rightarrow> state \<Rightarrow> unit outcome \<times> state" where
  "setDirection dir st =
     (case dir of
        None \<Rightarrow> (Threw TypeError, st\<lparr>direction := None\<rparr>)
      | Some d \<Rightarrow>
          let d1 = (if CHR ''<'' \<in> set d then ''RL'' else d);
              d2 = (if CHR ''^'' \<in> set d1 then ''BT'' else d1);
              d3 = (if CHR ''>'' \<in> set d2 then ''LR'' else d2);
              d4 = (if CHR ''v'' \<in> set d3 then ''TB'' else d3)
          in (Returned (), st\<lparr>direction := Some d4\<rparr>))"

definition getDirection :: "state \<Rightarrow> string option" where
  "getDirection st = direction st"

subsection \<open>Classes of vertices and subgraphs, links, tooltips, click events\<close>

text \<open>
  \<open>subGraphLookup[id].classes.push(className)\<close> changes the record that the list
  \<open>subGraphs\<close> holds as well: both refer to one object. The lookup holds the position of
  the record in the list.

  The object \<open>vertices\<close> never has an own property with a name from \<open>objectKeys\<close>
  (\<open>addVertex\<close> makes a record only where \<open>vertices[id]\<close> is \<open>undefined\<close>). For such a
  name \<open>vertices[id]\<close> is the inherited value, which has no property \<open>classes\<close>, and the
  call of \<open>push\<close> throws.
\<close>

definition pushSubGraphClass :: "nat \<Rightarrow> string \<Rightarrow> subGraph list \<Rightarrow> subGraph list" where
  "pushSubGraphClass p className gs =
     (if p < length gs
      then gs[p := (gs ! p)\<lparr>sg_classes := sg_classes (gs ! p) @ [className]\<rparr>]
      else gs)"

definition setClass1 :: "string \<Rightarrow> string \<Rightarrow> state \<Rightarrow> unit outcome \<times> state" where
  "setClass1 className raw st =
     (case normalizeId raw of
        Threw e \<Rightarrow> (Threw e, st)
      | Beyond \<Rightarrow> (Beyond, st)
      | Returned id1 \<Rightarrow>
          if answers False id1 then (Threw TypeError, st)
          else
          let st1 = (case vertices st id1 of
                       None \<Rightarrow> st
                     | Some v \<Rightarrow>
                         st\<lparr>vertices := (vertices st)(id1 \<mapsto> v\<lparr>v_classes := v_classes v @ [className]\<rparr>)\<rparr>);
              st2 = (case subGraphLookup st1 id1 of
                       None \<Rightarrow> st1
                     | Some p \<Rightarrow> st1\<lparr>subGraphs := pushSubGraphClass p className (subGraphs st1)\<rparr>)
          in (Returned (), st2))"

definition setClass :: "string \<Rightarrow> string \<Rightarrow> state \<Rightarrow> unit outcome \<times> state" where
  "setClass ids className st = forEach (setClass1 className) (split_comma ids) st"

text \<open>
  \<open>tooltips[id] = sanitize(tooltip)\<close> makes an own property also where the name is
  inherited, with two exceptions: the setter of \<open>__proto__\<close> ignores a string, and the
  \<open>length\<close> of an array is no ordinary property.
\<close>

definition setTooltip1 :: "string option \<Rightarrow> string \<Rightarrow> state \<Rightarrow> unit outcome \<times> state" where
  "setTooltip1 tooltip id1 st =
     (case tooltip of
        None \<Rightarrow> (Returned (), st)
      | Some t \<Rightarrow>
          if id1 = ''__proto__'' then (Returned (), st)
          else if tooltipsArray st \<and> id1 = ''length'' then (Beyond, leave st)
          else (Returned (), st\<lparr>tooltips := (tooltips st)(id1 \<mapsto> sanitize (securityLevel st) t)\<rparr>))"

definition setTooltip :: "string \<Rightarrow> string option \<Rightarrow> state \<Rightarrow> unit outcome \<times> state" where
  "setTooltip ids tooltip st = forEach (setTooltip1 tooltip) (split_comma ids) st"

definition setClickFun :: "string option \<Rightarrow> string \<Rightarrow> state \<Rightarrow> unit outcome \<times> state" where
  "setClickFun functionName raw st =
     (case normalizeId raw of
        Threw e \<Rightarrow> (Threw e, st)
      | Beyond \<Rightarrow> (Beyond, st)
      | Returned id1 \<Rightarrow>
          if securityLevel st \<noteq> ''loose'' then (Returned (), st)
          else
            (case functionName of
               None \<Rightarrow> (Returned (), st)
             | Some f \<Rightarrow>
                 if vertices st id1 \<noteq> None \<or> answers False id1
                 then (Returned (), st\<lparr>funs := funs st @ [ClickBinding id1 f]\<rparr>)
                 else (Returned (), st)))"

text \<open>
  \<open>sanitizeUrl\<close> comes from the package \<open>@braintree/sanitize-url\<close>; it is a parameter of
  \<open>setLink\<close>. For an id that \<open>vertices\<close> answers to by itself, \<open>vertices[id].link = ...\<close>
  writes to the inherited object.
\<close>

definition setLink1 :: "(string \<Rightarrow> string) \<Rightarrow> string \<Rightarrow> string \<Rightarrow> state
    \<Rightarrow> unit outcome \<times> state" where
  "setLink1 sanitizeUrl linkStr raw st =
     (case normalizeId raw of
        Threw e \<Rightarrow> (Threw e, st)
      | Beyond \<Rightarrow> (Beyond, st)
      | Returned id1 \<Rightarrow>
          if answers False id1 then (Beyond, leave st)
          else
          (case vertices st id1 of
             None \<Rightarrow> (Returned (), st)
           | Some v \<Rightarrow>
               let l = (if securityLevel st \<noteq> ''loose'' then sanitizeUrl linkStr else linkStr)
               in (Returned (), st\<lparr>vertices := (vertices st)(id1 \<mapsto> v\<lparr>v_link := Some l\<rparr>)\<rparr>)))"

definition setLink :: "(string \<Rightarrow> string) \<Rightarrow> string \<Rightarrow> string \<Rightarrow> string option \<Rightarrow> state
    \<Rightarrow> unit outcome \<times> state" where
  "setLink sanitizeUrl ids linkStr tooltip st =
     (case forEach (setLink1 sanitizeUrl linkStr) (split_comma ids) st of
        (Threw e, st1) \<Rightarrow> (Threw e, st1)
      | (Beyond, st1) \<Rightarrow> (Beyond, st1)
      | (Returned u, st1) \<Rightarrow>
          (case setTooltip ids tooltip st1 of
             (Threw e, st2) \<Rightarrow> (Threw e, st2)
           | (Beyond, st2) \<Rightarrow> (Beyond, st2)
           | (Returned u, st2) \<Rightarrow> setClass ids ''clickable'' st2))"

text \<open>
  \<open>getTooltip\<close> returns \<open>tooltips[id]\<close>: the own property when there is one, and else the
  property that the container has by itself (the length of the array, a function of
  the prototype), which is no tooltip.
\<close>

definition getTooltip :: "state \<Rightarrow> string \<Rightarrow> string option outcome" where
  "getTooltip st id1 =
     (case tooltips st id1 of
        Some t \<Rightarrow> Returned (Some t)
      | None \<Rightarrow> if answers (tooltipsArray st) id1 then Beyond else Returned None)"

definition setClickEvent :: "string \<Rightarrow> string option \<Rightarrow> string option \<Rightarrow> state
    \<Rightarrow> unit outcome \<times> state" where
  "setClickEvent ids functionName tooltip st =
     (case forEach (setClickFun functionName) (split_comma ids) st of
        (Threw e, st1) \<Rightarrow> (Threw e, st1)
      | (Beyond, st1) \<Rightarrow> (Beyond, st1)
      | (Returned u, st1) \<Rightarrow>
          (case setTooltip ids tooltip st1 of
             (Threw e, st2) \<Rightarrow> (Threw e, st2)
           | (Beyond, st2) \<Rightarrow> (Beyond, st2)
           | (Returned u, st2) \<Rightarrow> setClass ids ''clickable'' st2))"

subsection \<open>Accessors and reset\<close>

definition getVertices :: "state \<Rightarrow> (string \<rightharpoonup> vertex)" where
  "getVertices st = vertices st"

definition getEdges :: "state \<Rightarrow> edge list" where
  "getEdges st = edges st"


definition getSubGraphs :: "state \<Rightarrow> subGraph list" where
  "getSubGraphs st = subGraphs st"

definition getDepthFirstPos :: "state \<Rightarrow> int \<Rightarrow> nat option" where
  "getDepthFirstPos st pos = posCrossRef st pos"

text \<open>
  \<open>clear\<close> assigns \<open>vertices\<close>, \<open>classes\<close>, \<open>edges\<close> (a new array, without the default
  properties), \<open>funs\<close>, \<open>subGraphs\<close>, \<open>subGraphLookup\<close>, \<open>subCount\<close>, \<open>tooltips\<close> and
  \<open>firstGraphFlag\<close>. It assigns neither \<open>direction\<close> nor \<open>secCount\<close> nor \<open>posCrossRef\<close>.
  The new \<open>classes\<close> is an object (\<open>{}\<close>) and the new \<open>tooltips\<close> an array (\<open>[]\<close>), both
  without own properties but for the \<open>length\<close> of the array.
\<close>

definition clear :: "state \<Rightarrow> state" where
  "clear st =
     st\<lparr> vertices := Map.empty, classes := Map.empty, classesArray := False, edges := [],
         defaultInterpolate := None, defaultStyle := None,
         funs := [SetupToolTips], subGraphs := [], subGraphLookup := Map.empty,
         subCount := 0, tooltips := Map.empty, tooltipsArray := True,
         firstGraphFlag := True \<rparr>"


subsection \<open>Subgraphs\<close>

text \<open>
  The local function \<open>uniq\<close>: a filter that drops the items that are blank after trimming
  and the items seen before. The argument \<open>seen\<close> holds the own keys of the table
  \<open>prims.string\<close>, a new object in every call.
  \<^item> The test is \<open>prims[type].hasOwnProperty(item)\<close>. Once the item \<open>hasOwnProperty\<close> has
    been entered, \<open>prims[type].hasOwnProperty\<close> is \<open>true\<close>, and the test of the next item
    that is not blank throws (\<open>true\<close> is no function).
  \<^item> The entry is \<open>prims[type][item] = true\<close>. For the item \<open>__proto__\<close> this calls the
    setter of the prototype, which ignores \<open>true\<close>: the item is kept and never entered, so
    that its repetitions are kept too.
\<close>

fun uniqFrom :: "string list \<Rightarrow> string list \<Rightarrow> string list outcome" where
  "uniqFrom seen [] = Returned []"
| "uniqFrom seen (item # a) =
     (if trim item = [] then uniqFrom seen a
      else if ''hasOwnProperty'' \<in> set seen then Threw TypeError
      else if item \<in> set seen then uniqFrom seen a
      else
        (case uniqFrom (if item = ''__proto__'' then seen else item # seen) a of
           Returned r \<Rightarrow> Returned (item # r)
         | Threw e \<Rightarrow> Threw e
         | Beyond \<Rightarrow> Beyond))"

definition uniq :: "string list \<Rightarrow> string list outcome" where
  "uniq a = uniqFrom [] a"

text \<open>The loop over \<open>nodeList\<close> that normalizes each member in place.\<close>

fun normalizeAll :: "string list \<Rightarrow> string list outcome" where
  "normalizeAll [] = Returned []"
| "normalizeAll (n # ns) =
     (case normalizeId n of
        Threw e \<Rightarrow> Threw e
      | Beyond \<Rightarrow> Beyond
      | Returned m \<Rightarrow>
          (case normalizeAll ns of
             Threw e \<Rightarrow> Threw e
           | Beyond \<Rightarrow> Beyond
           | Returned ms \<Rightarrow> Returned (m # ms)))"

text \<open>
  \<open>_id === _title && _title.match(/\s/)\<close>: when both are \<open>undefined\<close> the comparison holds
  and the call of \<open>match\<close> throws. \<open>id || ...\<close> and \<open>title || ''\<close> take the right-hand
  side for \<open>undefined\<close> and for the empty string.

  \<open>subGraphLookup[id] = subGraph\<close> comes after the \<open>push\<close>. It makes an own property of
  the lookup, also where the name is inherited, but for the id \<open>__proto__\<close>: there it
  makes the record the prototype of the lookup.
\<close>

definition subGraphId :: "string option \<Rightarrow> string option \<Rightarrow> string option outcome" where
  "subGraphId raw_id raw_title =
     (if raw_id = raw_title then
        (case raw_title of
           None \<Rightarrow> Threw TypeError
         | Some t \<Rightarrow> Returned (if (\<exists>c \<in> set t. isSpace c) then None else raw_id))
      else Returned raw_id)"

definition addSubGraph :: "string option \<Rightarrow> string list list \<Rightarrow> string option \<Rightarrow> state
    \<Rightarrow> string outcome \<times> state" where
  "addSubGraph raw_id list raw_title st =
     (case subGraphId raw_id raw_title of
        Threw e \<Rightarrow> (Threw e, st)
      | Beyond \<Rightarrow> (Beyond, st)
      | Returned id0 \<Rightarrow>
          (case uniq (concat list) of
             Threw e \<Rightarrow> (Threw e, st)
           | Beyond \<Rightarrow> (Beyond, st)
           | Returned members \<Rightarrow>
               (case normalizeAll members of
                  Threw e \<Rightarrow> (Threw e, st)
                | Beyond \<Rightarrow> (Beyond, st)
                | Returned nodeList \<Rightarrow>
                    let id1 = (case id0 of
                                 None \<Rightarrow> ''subGraph'' @ decimal (subCount st)
                               | Some i \<Rightarrow>
                                   if i = [] then ''subGraph'' @ decimal (subCount st) else i)
                    in
                      (case normalizeId id1 of
                         Threw e \<Rightarrow> (Threw e, st)
                       | Beyond \<Rightarrow> (Beyond, st)
                       | Returned id2 \<Rightarrow>
                           let title = (case raw_title of
                                          None \<Rightarrow> []
                                        | Some t \<Rightarrow> t);
                               title1 = sanitize (securityLevel st) title;
                               subGraph = \<lparr> sg_id = id2, sg_nodes = nodeList,
                                            sg_title = trim title1, sg_classes = [] \<rparr>;
                               st1 = st\<lparr> subCount := subCount st + 1,
                                         subGraphs := subGraphs st @ [subGraph] \<rparr>
                           in if id2 = ''__proto__'' then (Beyond, leave st1)
                              else (Returned id2,
                                    st1\<lparr>subGraphLookup :=
                                          (subGraphLookup st)(id2 \<mapsto> length (subGraphs st))\<rparr>)))))"

subsection \<open>The subgraph indexer\<close>

fun getPosFrom :: "nat \<Rightarrow> subGraph list \<Rightarrow> string \<Rightarrow> int" where
  "getPosFrom i [] id1 = - 1"
| "getPosFrom i (g # gs) id1 = (if sg_id g = id1 then int i else getPosFrom (Suc i) gs id1)"

definition getPosForId :: "state \<Rightarrow> string \<Rightarrow> int" where
  "getPosForId st id1 = getPosFrom 0 (subGraphs st) id1"

text \<open>
  \<open>indexNodes2\<close> calls itself from inside its loop. The first argument of the model
  bounds the depth of the calls; \<open>None\<close> says that the bound was too small. The function
  returns \<open>undefined\<close> (\<open>Returned None\<close>) when the counter has passed 2000, and the loop
  of the caller then reads \<open>res.result\<close> of \<open>undefined\<close>, which throws.
\<close>

fun indexNodes2 :: "nat \<Rightarrow> string \<Rightarrow> nat \<Rightarrow> state \<Rightarrow> (walk option outcome \<times> state) option"
and children :: "nat \<Rightarrow> string \<Rightarrow> string list \<Rightarrow> nat \<Rightarrow> state
    \<Rightarrow> (walk option outcome \<times> state) option" where
  "indexNodes2 0 id1 pos st = None"
| "indexNodes2 (Suc depth) id1 pos st =
     (if length (subGraphs st) \<le> pos then Some (Threw TypeError, st)
      else
        let nodes = sg_nodes (subGraphs st ! pos);
            st1 = st\<lparr>secCount := secCount st + 1\<rparr>
        in if secCount st1 > 2000 then Some (Returned None, st1)
           else
             let st2 = st1\<lparr>posCrossRef := (posCrossRef st1)(secCount st1 \<mapsto> pos)\<rparr>
             in if sg_id (subGraphs st2 ! pos) = id1
                then Some (Returned (Some \<lparr> result = True, count = 0 \<rparr>), st2)
                else children depth id1 nodes 1 st2)"
| "children depth id1 [] posCount st =
     Some (Returned (Some \<lparr> result = False, count = posCount \<rparr>), st)"
| "children depth id1 (n # ns) posCount st =
     (let childPos = getPosForId st n
      in if childPos \<ge> 0 then
           (case indexNodes2 depth id1 (nat childPos) st of
              None \<Rightarrow> None
            | Some (Threw e, st') \<Rightarrow> Some (Threw e, st')
            | Some (Beyond, st') \<Rightarrow> Some (Beyond, st')
            | Some (Returned None, st') \<Rightarrow> Some (Threw TypeError, st')
            | Some (Returned (Some res), st') \<Rightarrow>
                if result res
                then Some (Returned (Some \<lparr> result = True, count = posCount + count res \<rparr>), st')
                else children depth id1 ns (posCount + count res) st')
         else children depth id1 ns posCount st)"

definition indexNodes :: "nat \<Rightarrow> state \<Rightarrow> (unit outcome \<times> state) option" where
  "indexNodes depth st =
     (let st1 = st\<lparr>secCount := - 1\<rparr>
      in if length (subGraphs st1) > 0 then
           (case indexNodes2 depth ''none'' (length (subGraphs st1) - 1) st1 of
              None \<Rightarrow> None
            | Some (Threw e, st') \<Rightarrow> Some (Threw e, st')
            | Some (Beyond, st') \<Rightarrow> Some (Beyond, st')
            | Some (Returned r, st') \<Rightarrow> Some (Returned (), st'))
         else Some (Returned (), st1))"

subsection \<open>Notions used in the statements\<close>

text \<open>Removing duplicates while keeping each first occurrence.\<close>

definition firstOccurrences :: "'a list \<Rightarrow> 'a list" where
  "firstOccurrences xs = rev (remdups (rev xs))"

text \<open>The id under which \<open>addSubGraph\<close> registers the record.\<close>

definition finalId :: "string option \<Rightarrow> string option \<Rightarrow> nat \<Rightarrow> string" where
  "finalId raw_id raw_title n =
     normalized
       (case subGraphId raw_id raw_title of
          Returned (Some i) \<Rightarrow> if i = [] then ''subGraph'' @ decimal n else i
        | Returned None \<Rightarrow> ''subGraph'' @ decimal n
        | Threw e \<Rightarrow> []
        | Beyond \<Rightarrow> [])"




text \<open>
  The value of the expression \<open>subGraphLookup[id]\<close>: the record entered under the id,
  given by its position; \<open>undefined\<close> for an id that has no entry and that
  \<open>Object.prototype\<close> does not answer; and for the other ids without entry a member of
  \<open>Object.prototype\<close>, which is no record.
\<close>

definition lookupSubGraph :: "state \<Rightarrow> string \<Rightarrow> nat option outcome" where
  "lookupSubGraph st id1 =
     (case subGraphLookup st id1 of
        Some p \<Rightarrow> Returned (Some p)
      | None \<Rightarrow> if answers False id1 then Beyond else Returned None)"

text \<open>
  The latch, the subgraph lookup, the subgraph counter and the ids of the subgraph list:
  what all mutation calls except \<open>addSubGraph\<close> leave alone.
\<close>

definition kept :: "state \<Rightarrow> bool \<times> (string \<rightharpoonup> nat) \<times> nat \<times> string list" where
  "kept st = (firstGraphFlag st, subGraphLookup st, subCount st, map sg_id (subGraphs st))"

text \<open>The style array after the test and the \<open>push\<close> of the branch for an edge position.\<close>

definition withFill :: "string list \<Rightarrow> string list" where
  "withFill arr = (if isSubstringInArray ''fill'' arr = - 1 then arr @ [''fill:none''] else arr)"

text \<open>
  What a walk of the indexer does to the state: the counter does not go down, the
  subgraphs stay, and the table gets entries only between the old counter and the cap.
\<close>

definition walked :: "state \<Rightarrow> state \<Rightarrow> bool" where
  "walked st st' =
     (secCount st \<le> secCount st' \<and> subGraphs st' = subGraphs st
      \<and> dom (posCrossRef st') \<subseteq> dom (posCrossRef st) \<union> {secCount st + 1 .. 2000})"

subsection \<open>Sequences of calls\<close>

text \<open>
  The write path of the parser: the ten mutation calls. \<open>mutate\<close> gives the state that a
  call leaves behind, whether it returned or threw; \<open>mutateAll\<close> runs a sequence of
  calls, as a parser does that goes on after an exception was caught. When one of the
  calls was \<open>Beyond\<close>, the state at the end has the flag \<open>beyond\<close>.
\<close>

datatype call =
    AddVertex "string option" "string option" "string option" "string list js" "string list js"
  | AddLink "string option" "string option" "linkType option" "string option"
  | UpdateLinkInterpolate "position list" "string option"
  | UpdateLink "position list" nat
  | AddClass string "string list js"
  | SetDirection "string option"
  | SetClass string string
  | SetLink string string "string option"
  | SetClickEvent string "string option" "string option"
  | AddSubGraph "string option" "string list list" "string option"

fun mutate :: "(string \<Rightarrow> string) \<Rightarrow> call \<Rightarrow> state \<Rightarrow> state" where
  "mutate su (AddVertex i t ty ss cs) st = snd (addVertex i t ty ss cs st)"
| "mutate su (AddLink s e ty l) st = snd (addLink s e ty l st)"
| "mutate su (UpdateLinkInterpolate ps i) st = snd (updateLinkInterpolate ps i st)"
| "mutate su (UpdateLink ps r) st = snd (updateLink ps r st)"
| "mutate su (AddClass i ss) st = snd (addClass i ss st)"
| "mutate su (SetDirection d) st = snd (setDirection d st)"
| "mutate su (SetClass ids c) st = snd (setClass ids c st)"
| "mutate su (SetLink ids l t) st = snd (setLink su ids l t st)"
| "mutate su (SetClickEvent ids f t) st = snd (setClickEvent ids f t st)"
| "mutate su (AddSubGraph i l t) st = snd (addSubGraph i l t st)"

definition mutateAll :: "(string \<Rightarrow> string) \<Rightarrow> call list \<Rightarrow> state \<Rightarrow> state" where
  "mutateAll su cs st = fold (mutate su) cs st"


section \<open>Properties\<close>

subsection \<open>Direction\<close>

text \<open>
  The reading of the specification in which every test looks at the token itself, so
  that the last test that matches the token decides.
\<close>

definition lastMatch :: "string \<Rightarrow> string" where
  "lastMatch token =
     (let d1 = (if CHR ''<'' \<in> set token then ''RL'' else token);
          d2 = (if CHR ''^'' \<in> set token then ''BT'' else d1);
          d3 = (if CHR ''>'' \<in> set token then ''LR'' else d2);
          d4 = (if CHR ''v'' \<in> set token then ''TB'' else d3)
      in d4)"

text \<open>
  Claim C6, as stated, fails: the token \<open><>\<close> matches the test for \<open><\<close> and the test
  for \<open>>\<close>; the last test that matches it would give \<open>LR\<close>, and \<open>setDirection\<close> gives
  \<open>RL\<close>. The tests after the first match read the value \<open>RL\<close>, not the token.
\<close>

theorem setDirection_lastMatch_counterexample:
  "getDirection (snd (setDirection (Some ''<>'') (init ''strict''))) = Some ''RL''
   \<and> lastMatch ''<>'' = ''LR''
   \<and> getDirection (snd (setDirection (Some ''<>'') (init ''strict''))) \<noteq> Some (lastMatch ''<>'')"
  by (simp add: setDirection_def getDirection_def lastMatch_def)

text \<open>
  Claim C6, amended: the four tests run in the order \<open><\<close>, \<open>^\<close>, \<open>>\<close>, \<open>v\<close>, each on the
  current value of the direction, and none of \<open>RL\<close>, \<open>BT\<close>, \<open>LR\<close> contains a character
  that a later test looks for: the first test that matches the token decides, and a token
  that matches none is kept.
\<close>

theorem setDirection_first_match:
  "setDirection (Some d) st =
     (Returned (),
      st\<lparr>direction := Some
        (if CHR ''<'' \<in> set d then ''RL''
         else if CHR ''^'' \<in> set d then ''BT''
         else if CHR ''>'' \<in> set d then ''LR''
         else if CHR ''v'' \<in> set d then ''TB''
         else d)\<rparr>)"
  by (simp add: setDirection_def)

text \<open>The two examples of the claim: \<open>-->\<close> gives \<open>LR\<close> and \<open><-->\<close> gives \<open>RL\<close>.\<close>

theorem setDirection_first_match_witness:
  "getDirection (snd (setDirection (Some ''-->'') (init ''strict''))) = Some ''LR''
   \<and> getDirection (snd (setDirection (Some ''<-->'') (init ''strict''))) = Some ''RL''"
  using setDirection_first_match [of "''-->''" "init ''strict''"]
    setDirection_first_match [of "''<-->''" "init ''strict''"]
  by (simp add: getDirection_def)

text \<open>
  Claim C10: a token that contains none of \<open><\<close>, \<open>^\<close>, \<open>>\<close>, \<open>v\<close> is stored as it is, and
  \<open>getDirection\<close> returns it.
\<close>

theorem setDirection_verbatim:
  assumes "CHR ''<'' \<notin> set d" and "CHR ''^'' \<notin> set d"
    and "CHR ''>'' \<notin> set d" and "CHR ''v'' \<notin> set d"
  shows "setDirection (Some d) st = (Returned (), st\<lparr>direction := Some d\<rparr>)
         \<and> getDirection (snd (setDirection (Some d) st)) = Some d"
  using assms by (simp add: setDirection_def getDirection_def)

theorem setDirection_verbatim_witness:
  "getDirection (snd (setDirection (Some ''TD'') (init ''strict''))) = Some ''TD''"
  using setDirection_verbatim [of "''TD''" "init ''strict''"] by (simp add: getDirection_def)

subsection \<open>Helper facts\<close>

lemma normalizeId_normalized: "id0 \<noteq> [] \<Longrightarrow> normalizeId id0 = Returned (normalized id0)"
  by (cases id0) (simp_all add: normalizeId_def normalized_def)

lemma normalizeId_empty: "normalizeId [] = Threw TypeError"
  by (simp add: normalizeId_def)

text \<open>
  One layer of quotes goes when the text has a quote at both ends; a text without them
  stays. (The text that is one quote character alone stays as well: \<open>substring(1, 0)\<close>
  swaps its arguments.)
\<close>

lemma stripQuotes_enclosed: "stripQuotes (CHR 0x22 # m @ [CHR 0x22]) = m"
  by (simp add: stripQuotes_def substring_def)

lemma stripQuotes_other:
  "txt = [] \<or> hd txt \<noteq> CHR 0x22 \<or> last txt \<noteq> CHR 0x22 \<Longrightarrow> stripQuotes txt = txt"
  by (auto simp add: stripQuotes_def)






lemma kept_leave: "kept (leave st) = kept st"
  by (simp add: kept_def leave_def)











text \<open>
  The three ways in which \<open>addSubGraph\<close> ends: before the record is made; with the
  record pushed and the lookup left to the prototype; with the record pushed and entered.
\<close>

lemma addSubGraph_state:
  "snd (addSubGraph i l t st) = st
   \<or> (\<exists>g. snd (addSubGraph i l t st) =
          leave (st\<lparr>subCount := subCount st + 1, subGraphs := subGraphs st @ [g]\<rparr>))
   \<or> (\<exists>g. snd (addSubGraph i l t st) =
          st\<lparr>subCount := subCount st + 1, subGraphs := subGraphs st @ [g],
             subGraphLookup := (subGraphLookup st)(sg_id g \<mapsto> length (subGraphs st))\<rparr>)"
proof (cases "subGraphId i t")
  case (Returned id0)
  show ?thesis
  proof (cases "uniq (concat l)")
    case u: (Returned members)
    show ?thesis
    proof (cases "normalizeAll members")
      case n: (Returned nodeList)
      define id1 where "id1 = (case id0 of None \<Rightarrow> ''subGraph'' @ decimal (subCount st)
                          | Some i \<Rightarrow> if i = [] then ''subGraph'' @ decimal (subCount st) else i)"
      show ?thesis
      proof (cases "normalizeId id1")
        case m: (Returned id2)
        show ?thesis
        proof (cases "id2 = ''__proto__''")
          case True
          have "snd (addSubGraph i l t st) =
            leave (st\<lparr>subCount := subCount st + 1, subGraphs := subGraphs st @
              [\<lparr> sg_id = id2, sg_nodes = nodeList,
                 sg_title = trim (sanitize (securityLevel st) (case t of None \<Rightarrow> [] | Some x \<Rightarrow> x)),
                 sg_classes = [] \<rparr>]\<rparr>)"
            using Returned u n m True
            by (simp add: addSubGraph_def Let_def id1_def [symmetric])
          then show ?thesis by blast
        next
          case False
          have "snd (addSubGraph i l t st) =
            st\<lparr>subCount := subCount st + 1, subGraphs := subGraphs st @
              [\<lparr> sg_id = id2, sg_nodes = nodeList,
                 sg_title = trim (sanitize (securityLevel st) (case t of None \<Rightarrow> [] | Some x \<Rightarrow> x)),
                 sg_classes = [] \<rparr>],
              subGraphLookup := (subGraphLookup st)(id2 \<mapsto> length (subGraphs st))\<rparr>"
            using Returned u n m False
            by (simp add: addSubGraph_def Let_def id1_def [symmetric])
          then have "\<exists>g. snd (addSubGraph i l t st) =
            st\<lparr>subCount := subCount st + 1, subGraphs := subGraphs st @ [g],
               subGraphLookup := (subGraphLookup st)(sg_id g \<mapsto> length (subGraphs st))\<rparr>"
            by (intro exI [where x = "\<lparr> sg_id = id2, sg_nodes = nodeList,
                 sg_title = trim (sanitize (securityLevel st) (case t of None \<Rightarrow> [] | Some x \<Rightarrow> x)),
                 sg_classes = [] \<rparr>"]) simp
          then show ?thesis by blast
        qed
      qed (use Returned u n in \<open>simp_all add: addSubGraph_def Let_def id1_def [symmetric]\<close>)
    qed (use Returned u in \<open>simp_all add: addSubGraph_def\<close>)
  qed (use Returned in \<open>simp_all add: addSubGraph_def\<close>)
qed (simp_all add: addSubGraph_def)











subsection \<open>Edges\<close>

text \<open>
  Claim C3: the argument \<open>linktext\<close> has no effect: two calls that differ in \<open>linktext\<close>
  only have the same outcome and leave the same state. When both endpoint ids are
  non-empty strings the call appends one edge, whose text comes from
  \<open>typeDescriptor.text\<close> alone: trimmed, sanitized, and with the quotes stripped (empty
  when \<open>typeDescriptor.text\<close> is \<open>undefined\<close>). Stripping takes one layer of quotes from
  a text that is enclosed in quotes and leaves every other text as it is.
\<close>

theorem addLink_text_from_type:
  "addLink s e ty l1 st = addLink s e ty l2 st
   \<and> (a \<noteq> [] \<and> b \<noteq> [] \<longrightarrow>
        addLink (Some a) (Some b) (Some t) l1 st =
          (Returned (),
           st\<lparr>edges := edges st @
             [\<lparr> e_start = normalized a, e_end = normalized b, e_type = t_type t,
                e_text = (case t_text t of
                            None \<Rightarrow> []
                          | Some x \<Rightarrow> stripQuotes (sanitize (securityLevel st) (trim x))),
                e_stroke = t_stroke t, e_style = None, e_interpolate = None \<rparr>]\<rparr>))
   \<and> stripQuotes (CHR 0x22 # m @ [CHR 0x22]) = m
   \<and> (txt = [] \<or> hd txt \<noteq> CHR 0x22 \<or> last txt \<noteq> CHR 0x22 \<longrightarrow> stripQuotes txt = txt)"
  using stripQuotes_other [of "txt"]
  by (simp add: addLink_def edgeText_def normalizeId_normalized stripQuotes_enclosed)

theorem addLink_text_from_type_witness:
  "getEdges (snd (addLink (Some ''1node'') (Some ''node2'')
       (Some \<lparr> t_type = Some ''arrow'', t_stroke = Some ''solid'',
               t_text = Some [CHR 0x22, CHR ''g'', CHR ''='', CHR 0x22] \<rparr>)
       (Some ''go'') (init ''strict''))) =
     [\<lparr> e_start = ''s1node'', e_end = ''node2'', e_type = Some ''arrow'',
        e_text = ''g&equals;'', e_stroke = Some ''solid'', e_style = None,
        e_interpolate = None \<rparr>]"
  using addLink_text_from_type [where a = "''1node''" and b = "''node2''"
      and st = "init ''strict''" and ?l1.0 = "Some ''go''"
      and t = "\<lparr> t_type = Some ''arrow'', t_stroke = Some ''solid'',
                  t_text = Some [CHR 0x22, CHR ''g'', CHR ''='', CHR 0x22] \<rparr>"]
  by (simp add: getEdges_def init_def normalized_def digit_def trim_def isSpace_def
      sanitize_def stripQuotes_def substring_def)

subsection \<open>Exceptions of the mutation calls\<close>

text \<open>
  Claim C2 says that no mutation call raises an exception. Three calls that do:
  \<open>addSubGraph(undefined, list, undefined)\<close>, where \<open>_title.match\<close> is called on
  \<open>undefined\<close> although the function goes on to supply defaults for both arguments;
  \<open>addLink\<close> with an empty start id; \<open>setClass\<close> with an empty id list. \<open>addVertex\<close>
  guards against the undefined and the blank id, these do not.
\<close>

theorem mutation_calls_throw:
  "addSubGraph None list None st = (Threw TypeError, st)
   \<and> addLink (Some []) e ty l st = (Threw TypeError, st)
   \<and> setClass [] c st = (Threw TypeError, st)"
  by (simp add: addSubGraph_def subGraphId_def addLink_def setClass_def setClass1_def
      normalizeId_def)

subsection \<open>Reset and the first-graph latch\<close>




text \<open>
  After \<open>clear\<close> the tooltip store is an empty array. For the key \<open>length\<close>, and for the
  names it inherits, \<open>getTooltip\<close> does not return \<open>undefined\<close> but the property of the array.
\<close>

lemma getTooltip_cleared_arrayKey:
  "i \<in> set arrayKeys \<Longrightarrow> getTooltip (clear st) i = Beyond"
  by (simp add: getTooltip_def clear_def answers_def)



subsection \<open>Members of a subgraph\<close>

lemma trim_empty_iff: "trim s = [] \<longleftrightarrow> (\<forall>c \<in> set s. isSpace c)"
proof
  assume "\<forall>c \<in> set s. isSpace c"
  then show "trim s = []" by (auto simp add: trim_def dest: set_dropWhileD)
next
  assume t: "trim s = []"
  have a: "\<forall>c \<in> set (dropWhile isSpace s). isSpace c"
    using t by (simp add: trim_def dropWhile_eq_Nil_conv)
  have "dropWhile isSpace s = []"
  proof (rule ccontr)
    assume n: "dropWhile isSpace s \<noteq> []"
    then have "\<not> isSpace (hd (dropWhile isSpace s))" by (rule hd_dropWhile)
    moreover have "hd (dropWhile isSpace s) \<in> set (dropWhile isSpace s)" using n by simp
    ultimately show False using a by blast
  qed
  then show "\<forall>c \<in> set s. isSpace c" by (simp add: dropWhile_eq_Nil_conv)
qed

lemma trim_normalized: "trim x \<noteq> [] \<Longrightarrow> trim (normalized x) \<noteq> []"
  by (auto simp add: trim_empty_iff normalized_def isSpace_def)

lemma nonblank_nonempty: "trim x \<noteq> [] \<Longrightarrow> x \<noteq> []"
  by (auto simp add: trim_def)

lemma remdups_snoc: "remdups (ys @ [x]) = filter (\<lambda>y. y \<noteq> x) (remdups ys) @ [x]"
  by (induction ys) auto

lemma firstOccurrences_Cons:
  "firstOccurrences (x # xs) = x # firstOccurrences (filter (\<lambda>y. y \<noteq> x) xs)"
  by (simp add: firstOccurrences_def remdups_snoc remdups_filter rev_filter)

lemma firstOccurrences_Nil: "firstOccurrences [] = []"
  by (simp add: firstOccurrences_def)

text \<open>
  On items other than \<open>__proto__\<close> and \<open>hasOwnProperty\<close> the filter of \<open>uniq\<close> removes the
  blank items and the repetitions.
\<close>

lemma uniqFrom_firstOccurrences:
  assumes "''__proto__'' \<notin> set a" and "''hasOwnProperty'' \<notin> set a"
    and "''hasOwnProperty'' \<notin> set seen"
  shows "uniqFrom seen a =
     Returned (firstOccurrences (filter (\<lambda>x. trim x \<noteq> [] \<and> x \<notin> set seen) a))"
  using assms
proof (induction a arbitrary: seen)
  case Nil
  show ?case by (simp add: firstOccurrences_Nil)
next
  case (Cons item a)
  from Cons.prems have p: "''__proto__'' \<notin> set a" and h: "''hasOwnProperty'' \<notin> set a"
    and ip: "item \<noteq> ''__proto__''" and ih: "item \<noteq> ''hasOwnProperty''"
    and sh: "''hasOwnProperty'' \<notin> set seen" by auto
  have sh': "''hasOwnProperty'' \<notin> set (item # seen)" using sh ih by auto
  have f: "filter (\<lambda>y. y \<noteq> item) (filter (\<lambda>x. trim x \<noteq> [] \<and> x \<notin> set seen) a)
           = filter (\<lambda>x. trim x \<noteq> [] \<and> x \<notin> set (item # seen)) a"
    by (induction a) auto
  show ?case
    using Cons.IH [OF p h sh] Cons.IH [OF p h sh'] f sh ip
    by (simp add: firstOccurrences_Cons)
qed

lemma uniq_firstOccurrences:
  assumes "''__proto__'' \<notin> set a" and "''hasOwnProperty'' \<notin> set a"
  shows "uniq a = Returned (firstOccurrences (filter (\<lambda>x. trim x \<noteq> []) a))"
  using uniqFrom_firstOccurrences [OF assms, of "[]"] by (simp add: uniq_def)

text \<open>
  The two items that the table \<open>prims.string\<close> does not treat as keys: the repetitions of
  \<open>__proto__\<close> are kept, and after a first member \<open>hasOwnProperty\<close> a second member that is
  not blank makes the call throw.
\<close>

lemma uniqFrom_proto:
  assumes "\<forall>m \<in> set a. m = ''__proto__''" and "''__proto__'' \<notin> set seen"
    and "''hasOwnProperty'' \<notin> set seen"
  shows "uniqFrom seen a = Returned a"
  using assms
proof (induction a)
  case Nil
  show ?case by simp
next
  case (Cons item a)
  have t: "trim ''__proto__'' \<noteq> []" by code_simp
  from Cons.prems have i: "item = ''__proto__''" and r: "\<forall>m \<in> set a. m = ''__proto__''"
    by simp_all
  from Cons.IH [OF r Cons.prems(2) Cons.prems(3)] Cons.prems(2) Cons.prems(3) t
  show ?case unfolding i by simp
qed

lemma uniq_proto: "\<forall>m \<in> set a. m = ''__proto__'' \<Longrightarrow> uniq a = Returned a"
  unfolding uniq_def by (rule uniqFrom_proto) simp_all

lemma uniq_hasOwnProperty_throws:
  assumes "trim x \<noteq> []"
  shows "uniq (''hasOwnProperty'' # x # a) = Threw TypeError"
proof -
  have "trim ''hasOwnProperty'' \<noteq> []" by code_simp
  with assms show ?thesis by (simp add: uniq_def)
qed

lemma addSubGraph_hasOwnProperty_throws:
  assumes "trim x \<noteq> []"
  shows "fst (addSubGraph raw_id ((''hasOwnProperty'' # x # a) # rest) raw_title st) = Threw TypeError"
proof (cases "subGraphId raw_id raw_title")
  case (Returned id0)
  have "uniq (concat ((''hasOwnProperty'' # x # a) # rest)) = Threw TypeError"
    using uniq_hasOwnProperty_throws [OF assms, of "a @ concat rest"] by simp
  with Returned show ?thesis by (simp add: addSubGraph_def)
next
  case (Threw e)
  then show ?thesis by (cases e) (simp add: addSubGraph_def)
next
  case Beyond
  then show ?thesis
    by (simp add: subGraphId_def split: if_splits option.splits)
qed

text \<open>Whatever the items are, the members that \<open>uniq\<close> returns are not blank.\<close>

lemma uniqFrom_nonblank:
  "uniqFrom seen a = Returned ms \<Longrightarrow> \<forall>m \<in> set ms. trim m \<noteq> []"
proof (induction a arbitrary: seen ms)
  case Nil
  then show ?case by simp
next
  case (Cons item a)
  show ?case
  proof (cases "trim item = [] \<or> item \<in> set seen")
    case True
    with Cons.prems have "uniqFrom seen a = Returned ms"
      by (auto split: if_splits)
    then show ?thesis by (rule Cons.IH)
  next
    case False
    with Cons.prems obtain r
      where r: "uniqFrom (if item = ''__proto__'' then seen else item # seen) a = Returned r"
        and ms: "ms = item # r"
      by (auto split: if_splits outcome.splits)
    from Cons.IH [OF r] False ms show ?thesis by simp
  qed
qed

lemma normalizeAll_map:
  "\<forall>x \<in> set xs. x \<noteq> [] \<Longrightarrow> normalizeAll xs = Returned (map normalized xs)"
  by (induction xs) (simp_all add: normalizeId_normalized)

lemma normalizeAll_uniq:
  assumes "uniq a = Returned ms"
  shows "normalizeAll ms = Returned (map normalized ms)"
proof (rule normalizeAll_map)
  from assms have "\<forall>m \<in> set ms. trim m \<noteq> []"
    unfolding uniq_def by (rule uniqFrom_nonblank)
  then show "\<forall>x \<in> set ms. x \<noteq> []" by (auto dest: nonblank_nonempty)
qed

text \<open>
  What \<open>addSubGraph\<close> does when the id or the title is defined and \<open>uniq\<close> returns: the
  record is pushed, and it is entered in the lookup unless its id is \<open>__proto__\<close>.
\<close>

lemma addSubGraph_returns:
  assumes "raw_id \<noteq> None \<or> raw_title \<noteq> None" and "uniq (concat list) = Returned members"
  shows "addSubGraph raw_id list raw_title st =
     (if finalId raw_id raw_title (subCount st) = ''__proto__''
      then (Beyond,
        leave (st\<lparr> subCount := subCount st + 1,
          subGraphs := subGraphs st @
            [\<lparr> sg_id = finalId raw_id raw_title (subCount st),
               sg_nodes = map normalized members,
               sg_title = trim (sanitize (securityLevel st) (case raw_title of None \<Rightarrow> [] | Some t \<Rightarrow> t)),
               sg_classes = [] \<rparr>] \<rparr>))
      else (Returned (finalId raw_id raw_title (subCount st)),
        st\<lparr> subCount := subCount st + 1,
          subGraphs := subGraphs st @
            [\<lparr> sg_id = finalId raw_id raw_title (subCount st),
               sg_nodes = map normalized members,
               sg_title = trim (sanitize (securityLevel st) (case raw_title of None \<Rightarrow> [] | Some t \<Rightarrow> t)),
               sg_classes = [] \<rparr>],
          subGraphLookup := (subGraphLookup st)(finalId raw_id raw_title (subCount st) \<mapsto> length (subGraphs st)) \<rparr>))"
proof -
  have "\<exists>id0. subGraphId raw_id raw_title = Returned id0"
    using assms(1) by (cases raw_id; cases raw_title) (simp_all add: subGraphId_def)
  then obtain id0 where i: "subGraphId raw_id raw_title = Returned id0" ..
  define id1 where "id1 = (case id0 of None \<Rightarrow> ''subGraph'' @ decimal (subCount st)
                          | Some i \<Rightarrow> if i = [] then ''subGraph'' @ decimal (subCount st) else i)"
  have ne: "id1 \<noteq> []" by (simp add: id1_def split: option.splits)
  have fin: "finalId raw_id raw_title (subCount st) = normalized id1"
    by (simp add: finalId_def i id1_def split: option.splits)
  show ?thesis
    unfolding addSubGraph_def i fin
    by (simp add: assms(2) normalizeAll_uniq [OF assms(2)] normalizeId_normalized [OF ne]
        id1_def [symmetric] Let_def)
qed

text \<open>Member lists that hold nothing but \<open>__proto__\<close> are stored as they are.\<close>

lemma addSubGraph_proto_members:
  assumes h: "raw_id \<noteq> None \<or> raw_title \<noteq> None"
    and all: "\<forall>m \<in> set (concat list). m = ''__proto__''"
  shows "sg_nodes (last (getSubGraphs (snd (addSubGraph raw_id list raw_title st)))) = concat list"
proof -
  have u: "uniq (concat list) = Returned (concat list)" using all by (rule uniq_proto)
  have n: "normalized ''__proto__'' = ''__proto__''" by code_simp
  have "map normalized ms = ms" if "\<forall>m \<in> set ms. m = ''__proto__''" for ms
    using that n by (induction ms) simp_all
  from this [OF all] show ?thesis
    by (simp add: addSubGraph_returns [OF h u] getSubGraphs_def leave_def)
qed

text \<open>
  Claim C5, as stated, fails in its last part: the duplicates are removed before the
  members are normalized, so the two distinct members \<open>1a\<close> and \<open>s1a\<close> both survive and
  are both stored as \<open>s1a\<close>.
\<close>

theorem addSubGraph_duplicate_member_counterexample:
  "sg_nodes (last (getSubGraphs (snd (addSubGraph (Some ''x'') [[''1a'', ''s1a'']] (Some ''t'') (init ''strict''))))) = [''s1a'', ''s1a'']"
  by code_simp

text \<open>
  Claim C5, amended. When the id or the title is defined and no member is \<open>__proto__\<close> or
  \<open>hasOwnProperty\<close>, \<open>addSubGraph\<close> appends one record and returns its id (it is \<open>Beyond\<close>
  when that id is \<open>__proto__\<close>). The nodes of the record are the flattened member lists,
  without the members that are blank after trimming and without repetitions, each first
  occurrence kept in its place, and each surviving member then normalized. Before the
  normalization the survivors are pairwise distinct; the stored list contains no blank
  string; and it is free of duplicates exactly when no two distinct survivors have the
  same normal form.
\<close>

theorem addSubGraph_nodes:
  "((raw_id \<noteq> None \<or> raw_title \<noteq> None) \<and> ''__proto__'' \<notin> set (concat list)
     \<and> ''hasOwnProperty'' \<notin> set (concat list) \<longrightarrow>
     fst (addSubGraph raw_id list raw_title st) =
         (if sg_id (last (getSubGraphs (snd (addSubGraph raw_id list raw_title st)))) = ''__proto__''
          then Beyond
          else Returned (sg_id (last (getSubGraphs (snd (addSubGraph raw_id list raw_title st))))))
     \<and> butlast (getSubGraphs (snd (addSubGraph raw_id list raw_title st))) = getSubGraphs st
     \<and> sg_nodes (last (getSubGraphs (snd (addSubGraph raw_id list raw_title st)))) =
         map normalized (firstOccurrences (filter (\<lambda>x. trim x \<noteq> []) (concat list)))
     \<and> distinct (firstOccurrences (filter (\<lambda>x. trim x \<noteq> []) (concat list)))
     \<and> (\<forall>n \<in> set (sg_nodes (last (getSubGraphs (snd (addSubGraph raw_id list raw_title st))))). trim n \<noteq> [])
     \<and> (distinct (sg_nodes (last (getSubGraphs (snd (addSubGraph raw_id list raw_title st)))))
          \<longleftrightarrow> inj_on normalized {x \<in> set (concat list). trim x \<noteq> []}))"
proof -
  have m: "fst (addSubGraph raw_id list raw_title st) =
         (if sg_id (last (getSubGraphs (snd (addSubGraph raw_id list raw_title st)))) = ''__proto__''
          then Beyond
          else Returned (sg_id (last (getSubGraphs (snd (addSubGraph raw_id list raw_title st))))))
     \<and> butlast (getSubGraphs (snd (addSubGraph raw_id list raw_title st))) = getSubGraphs st
     \<and> sg_nodes (last (getSubGraphs (snd (addSubGraph raw_id list raw_title st)))) =
         map normalized (firstOccurrences (filter (\<lambda>x. trim x \<noteq> []) (concat list)))
     \<and> distinct (firstOccurrences (filter (\<lambda>x. trim x \<noteq> []) (concat list)))
     \<and> (\<forall>n \<in> set (sg_nodes (last (getSubGraphs (snd (addSubGraph raw_id list raw_title st))))). trim n \<noteq> [])
     \<and> (distinct (sg_nodes (last (getSubGraphs (snd (addSubGraph raw_id list raw_title st)))))
          \<longleftrightarrow> inj_on normalized {x \<in> set (concat list). trim x \<noteq> []})"
    if a: "(raw_id \<noteq> None \<or> raw_title \<noteq> None) \<and> ''__proto__'' \<notin> set (concat list)
     \<and> ''hasOwnProperty'' \<notin> set (concat list)"
  proof -
    define ms where "ms = firstOccurrences (filter (\<lambda>x. trim x \<noteq> []) (concat list))"
    have u: "uniq (concat list) = Returned ms"
      unfolding ms_def using a by (intro uniq_firstOccurrences) simp_all
    have s: "set ms = {x \<in> set (concat list). trim x \<noteq> []}"
      by (auto simp add: ms_def firstOccurrences_def)
    have d: "distinct ms" by (simp add: ms_def firstOccurrences_def)
    have nb: "\<forall>n \<in> set (map normalized ms). trim n \<noteq> []"
      by (simp add: s trim_normalized)
    have inj: "distinct (map normalized ms)
        \<longleftrightarrow> inj_on normalized {x \<in> set (concat list). trim x \<noteq> []}"
      using d by (simp add: distinct_map s)
    from a have h: "raw_id \<noteq> None \<or> raw_title \<noteq> None" by blast
    show ?thesis
      using d nb inj
      unfolding ms_def [symmetric]
      by (simp add: addSubGraph_returns [OF h u] getSubGraphs_def leave_def)
  qed
  from m show ?thesis by blast
qed

theorem addSubGraph_nodes_witness:
  "''__proto__'' \<notin> set (concat [[''a'', ''1b''], ['' '', ''a'', ''c'']])
   \<and> ''hasOwnProperty'' \<notin> set (concat [[''a'', ''1b''], ['' '', ''a'', ''c'']])
   \<and> sg_nodes (last (getSubGraphs (snd (addSubGraph (Some ''x'')
       [[''a'', ''1b''], ['' '', ''a'', ''c'']] (Some ''t'') (init ''strict''))))) =
     [''a'', ''s1b'', ''c'']"
proof -
  have h: "(Some ''x'' \<noteq> None \<or> Some ''t'' \<noteq> None)
     \<and> ''__proto__'' \<notin> set (concat [[''a'', ''1b''], ['' '', ''a'', ''c'']])
     \<and> ''hasOwnProperty'' \<notin> set (concat [[''a'', ''1b''], ['' '', ''a'', ''c'']])"
    by simp
  have f: "map normalized (firstOccurrences (filter (\<lambda>x. trim x \<noteq> [])
             (concat [[''a'', ''1b''], ['' '', ''a'', ''c'']]))) = [''a'', ''s1b'', ''c'']"
    by code_simp
  have "sg_nodes (last (getSubGraphs (snd (addSubGraph (Some ''x'')
       [[''a'', ''1b''], ['' '', ''a'', ''c'']] (Some ''t'') (init ''strict''))))) =
     map normalized (firstOccurrences (filter (\<lambda>x. trim x \<noteq> [])
             (concat [[''a'', ''1b''], ['' '', ''a'', ''c'']])))"
    using addSubGraph_nodes [of "Some ''x''" "Some ''t''" "[[''a'', ''1b''], ['' '', ''a'', ''c'']]"
        "init ''strict''"] h
    by blast
  with f h show ?thesis by (simp only:) simp
qed

subsection \<open>Ids in the subgraph registry\<close>










text \<open>
  For the names of \<open>Object.prototype\<close> the lookup answers also when it has no entry,
  already after the module is loaded and after \<open>clear\<close>.
\<close>

lemma lookupSubGraph_objectKey:
  "k \<in> set objectKeys \<Longrightarrow>
   lookupSubGraph (init level) k = Beyond \<and> lookupSubGraph (clear st) k = Beyond"
  by (simp add: lookupSubGraph_def init_def clear_def answers_def)




subsection \<open>Classes of vertices and subgraphs\<close>

text \<open>
  The names of \<open>Object.prototype\<close> are single fields, and normalization keeps them. Such an
  id is in neither registry, and yet \<open>setClass\<close> does not ignore it: the call throws.
\<close>

lemma objectKeys_fields:
  "\<forall>x \<in> set objectKeys. split_comma x = [x] \<and> normalizeId x = Returned x"
  by code_simp

lemma setClass_objectKey:
  assumes "x \<in> set objectKeys" and "\<not> beyond st"
  shows "setClass x c st = (Threw TypeError, st)"
proof -
  from assms(1) objectKeys_fields have "split_comma x = [x]" and "normalizeId x = Returned x"
    by blast+
  with assms(1) show ?thesis
    by (simp add: setClass_def setClass1_def answers_def)
qed

lemma setClass1_returns:
  "raw \<noteq> [] \<Longrightarrow> normalized raw \<notin> set objectKeys \<Longrightarrow> fst (setClass1 c raw st) = Returned ()"
  by (simp add: setClass1_def normalizeId_normalized Let_def answers_def)

lemma setClass1_vertices:
  "raw \<noteq> [] \<Longrightarrow> normalized raw \<notin> set objectKeys \<Longrightarrow>
   vertices (snd (setClass1 c raw st)) k =
     (if k = normalized raw
      then map_option (\<lambda>v. v\<lparr>v_classes := v_classes v @ [c]\<rparr>) (vertices st k)
      else vertices st k)"
  by (simp add: setClass1_def normalizeId_normalized Let_def answers_def split: option.splits)

lemma setClass1_lookup: "subGraphLookup (snd (setClass1 c raw st)) = subGraphLookup st"
  by (simp add: setClass1_def Let_def split: outcome.splits option.splits)

lemma setClass1_length: "length (subGraphs (snd (setClass1 c raw st))) = length (subGraphs st)"
  by (simp add: setClass1_def Let_def pushSubGraphClass_def split: outcome.splits option.splits)

lemma setClass1_subGraphs:
  "raw \<noteq> [] \<Longrightarrow> normalized raw \<notin> set objectKeys \<Longrightarrow> p < length (subGraphs st) \<Longrightarrow>
   subGraphs (snd (setClass1 c raw st)) ! p =
     (if subGraphLookup st (normalized raw) = Some p
      then (subGraphs st ! p)\<lparr>sg_classes := sg_classes (subGraphs st ! p) @ [c]\<rparr>
      else subGraphs st ! p)"
  by (auto simp add: setClass1_def normalizeId_normalized Let_def pushSubGraphClass_def
      answers_def nth_list_update split: option.splits)

text \<open>
  The loop of \<open>setClass\<close> over fields none of which is empty or a name of
  \<open>Object.prototype\<close>.
\<close>

lemma setClass_loop:
  assumes "[] \<notin> set fs" and "\<forall>f \<in> set fs. normalized f \<notin> set objectKeys"
  shows "fst (forEach (setClass1 c) fs st) = Returned ()
    \<and> subGraphLookup (snd (forEach (setClass1 c) fs st)) = subGraphLookup st
    \<and> length (subGraphs (snd (forEach (setClass1 c) fs st))) = length (subGraphs st)
    \<and> (\<forall>k. vertices (snd (forEach (setClass1 c) fs st)) k =
          map_option (\<lambda>v. v\<lparr>v_classes := v_classes v @ replicate (count_list (map normalized fs) k) c\<rparr>)
            (vertices st k))
    \<and> (\<forall>p < length (subGraphs st).
          subGraphs (snd (forEach (setClass1 c) fs st)) ! p =
            (subGraphs st ! p)\<lparr>sg_classes := sg_classes (subGraphs st ! p) @
               replicate (length (filter (\<lambda>f. subGraphLookup st (normalized f) = Some p) fs)) c\<rparr>)"
  using assms
proof (induction fs arbitrary: st)
  case Nil
  show ?case by (simp add: option.map_ident)
next
  case (Cons f fs)
  from Cons.prems have f: "f \<noteq> []" and fs: "[] \<notin> set fs"
    and o: "normalized f \<notin> set objectKeys"
    and os: "\<forall>f \<in> set fs. normalized f \<notin> set objectKeys" by auto
  obtain st1 where s1: "setClass1 c f st = (Returned (), st1)"
    using setClass1_returns [OF f o, of c st] by (cases "setClass1 c f st") simp
  have st1: "st1 = snd (setClass1 c f st)" using s1 by simp
  note IH = Cons.IH [OF fs os, of st1]
  have lk: "subGraphLookup st1 = subGraphLookup st" unfolding st1 by (rule setClass1_lookup)
  have ln: "length (subGraphs st1) = length (subGraphs st)" unfolding st1 by (rule setClass1_length)
  have run: "forEach (setClass1 c) (f # fs) st = forEach (setClass1 c) fs st1"
    using s1 by simp
  have v: "vertices (snd (forEach (setClass1 c) fs st1)) k =
          map_option (\<lambda>v. v\<lparr>v_classes := v_classes v @ replicate (count_list (map normalized (f # fs)) k) c\<rparr>)
            (vertices st k)" for k
  proof -
    have ih: "vertices (snd (forEach (setClass1 c) fs st1)) k =
          map_option (\<lambda>v. v\<lparr>v_classes := v_classes v @ replicate (count_list (map normalized fs) k) c\<rparr>)
            (vertices st1 k)"
      using IH by blast
    have step: "vertices st1 k =
       (if k = normalized f
        then map_option (\<lambda>v. v\<lparr>v_classes := v_classes v @ [c]\<rparr>) (vertices st k)
        else vertices st k)"
      unfolding st1 by (rule setClass1_vertices [OF f o])
    show ?thesis
      unfolding ih step
      by (cases "k = normalized f"; cases "vertices st k") simp_all
  qed
  have g: "subGraphs (snd (forEach (setClass1 c) fs st1)) ! p =
            (subGraphs st ! p)\<lparr>sg_classes := sg_classes (subGraphs st ! p) @
               replicate (length (filter (\<lambda>f. subGraphLookup st (normalized f) = Some p) (f # fs))) c\<rparr>"
    if p: "p < length (subGraphs st)" for p
  proof -
    have p1: "p < length (subGraphs st1)" using p ln by simp
    have ih: "subGraphs (snd (forEach (setClass1 c) fs st1)) ! p =
            (subGraphs st1 ! p)\<lparr>sg_classes := sg_classes (subGraphs st1 ! p) @
               replicate (length (filter (\<lambda>f. subGraphLookup st (normalized f) = Some p) fs)) c\<rparr>"
      using IH p1 unfolding lk by blast
    have step: "subGraphs st1 ! p =
       (if subGraphLookup st (normalized f) = Some p
        then (subGraphs st ! p)\<lparr>sg_classes := sg_classes (subGraphs st ! p) @ [c]\<rparr>
        else subGraphs st ! p)"
      unfolding st1 by (rule setClass1_subGraphs [OF f o p])
    show ?thesis
      unfolding ih step
      by (cases "subGraphLookup st (normalized f) = Some p") simp_all
  qed
  show ?case
    unfolding run using IH lk ln v g by simp
qed

lemma setClass1_rest:
  "(snd (setClass1 c raw st))\<lparr>vertices := V, subGraphs := G\<rparr> = st\<lparr>vertices := V, subGraphs := G\<rparr>"
  by (simp add: setClass1_def Let_def split: outcome.splits option.splits)

lemma setClass_loop_rest:
  "(snd (forEach (setClass1 c) fs st))\<lparr>vertices := V, subGraphs := G\<rparr> = st\<lparr>vertices := V, subGraphs := G\<rparr>"
proof (induction fs arbitrary: st)
  case Nil
  show ?case by simp
next
  case (Cons f fs)
  show ?case
  proof (cases "setClass1 c f st")
    case (Pair r st1)
    have r1: "st1\<lparr>vertices := V, subGraphs := G\<rparr> = st\<lparr>vertices := V, subGraphs := G\<rparr>"
      using setClass1_rest [where c = c and raw = f and st = st and V = V and G = G] Pair by simp
    show ?thesis
    proof (cases r)
      case (Returned u)
      with Pair Cons.IH [of st1] r1 show ?thesis by simp
    next
      case (Threw e)
      with Pair r1 show ?thesis by simp
    next
      case Beyond
      with Pair r1 show ?thesis by simp
    qed
  qed
qed

text \<open>A session in which the id \<open>a\<close> names a vertex and a subgraph.\<close>

definition collision :: state where
  "collision = mutateAll (\<lambda>u. u)
     [AddVertex (Some ''a'') None None Undefined Undefined,
      AddSubGraph (Some ''a'') [] (Some ''a'')] (init ''strict'')"

text \<open>
  Claim C4, as stated, fails for an id that is in both registries: the two tests of
  \<open>setClass\<close> are two separate \<open>if\<close> statements, and the class is appended to the vertex
  and to the subgraph.
\<close>

theorem setClass_both_counterexample:
  "map_option v_classes (getVertices (snd (setClass ''a'' ''c'' collision)) ''a'') = Some [''c'']
   \<and> map sg_classes (getSubGraphs (snd (setClass ''a'' ''c'' collision))) = [[''c'']]"
  by code_simp

text \<open>
  Claim C4, amended. In a session without a \<open>Beyond\<close> call, when no field of the
  comma-delimited list is empty and no normalized field is a name of \<open>Object.prototype\<close>,
  \<open>setClass\<close> returns; each field appends the class name to the vertex with the normalized
  id, when there is one, and to the subgraph that the lookup has for the normalized id,
  when there is one, hence to both when the id is in both registries. So every vertex and
  every subgraph gets the class name once for each field that names it; a field that is
  in neither registry changes nothing; no record is created, and nothing but the class
  lists changes.
\<close>

theorem setClass_appends:
  "([] \<notin> set (split_comma ids) \<and> (\<forall>f \<in> set (split_comma ids). normalized f \<notin> set objectKeys)
      \<and> \<not> beyond st \<longrightarrow>
      fst (setClass ids className st) = Returned ()
      \<and> getVertices (snd (setClass ids className st)) k =
          map_option (\<lambda>v. v\<lparr>v_classes := v_classes v @
              replicate (count_list (map normalized (split_comma ids)) k) className\<rparr>)
            (getVertices st k)
      \<and> length (getSubGraphs (snd (setClass ids className st))) = length (getSubGraphs st)
      \<and> (p < length (getSubGraphs st) \<longrightarrow>
           getSubGraphs (snd (setClass ids className st)) ! p =
             (getSubGraphs st ! p)\<lparr>sg_classes := sg_classes (getSubGraphs st ! p) @
                replicate (length (filter (\<lambda>f. subGraphLookup st (normalized f) = Some p)
                                     (split_comma ids))) className\<rparr>)
      \<and> (snd (setClass ids className st))\<lparr>vertices := vertices st, subGraphs := subGraphs st\<rparr> = st)"
proof -
  have r: "(snd (setClass ids className st))\<lparr>vertices := vertices st, subGraphs := subGraphs st\<rparr> = st"
    unfolding setClass_def by (simp add: setClass_loop_rest)
  have l: "fst (setClass ids className st) = Returned ()
      \<and> getVertices (snd (setClass ids className st)) k =
          map_option (\<lambda>v. v\<lparr>v_classes := v_classes v @
              replicate (count_list (map normalized (split_comma ids)) k) className\<rparr>)
            (getVertices st k)
      \<and> length (getSubGraphs (snd (setClass ids className st))) = length (getSubGraphs st)
      \<and> (p < length (getSubGraphs st) \<longrightarrow>
           getSubGraphs (snd (setClass ids className st)) ! p =
             (getSubGraphs st ! p)\<lparr>sg_classes := sg_classes (getSubGraphs st ! p) @
                replicate (length (filter (\<lambda>f. subGraphLookup st (normalized f) = Some p)
                                     (split_comma ids))) className\<rparr>)"
    if "[] \<notin> set (split_comma ids)"
      and "\<forall>f \<in> set (split_comma ids). normalized f \<notin> set objectKeys"
    using setClass_loop [OF that, of className st]
    unfolding setClass_def getVertices_def getSubGraphs_def by blast
  from l r show ?thesis by blast
qed

theorem setClass_appends_witness:
  "[] \<notin> set (split_comma ''a,b'')
   \<and> \<not> beyond collision
   \<and> fst (setClass ''a,b'' ''c'' collision) = Returned ()
   \<and> map_option v_classes (getVertices (snd (setClass ''a,b'' ''c'' collision)) ''a'') = Some [''c'']
   \<and> getVertices (snd (setClass ''a,b'' ''c'' collision)) ''b'' = None
   \<and> sg_classes (getSubGraphs (snd (setClass ''a,b'' ''c'' collision)) ! 0) = [''c'']"
proof -
  have h: "[] \<notin> set (split_comma ''a,b'')" by code_simp
  have ho: "\<forall>f \<in> set (split_comma ''a,b''). normalized f \<notin> set objectKeys" by code_simp
  have hb: "\<not> beyond collision" by code_simp
  have a: "map_option v_classes (map_option (\<lambda>v. v\<lparr>v_classes := v_classes v @
            replicate (count_list (map normalized (split_comma ''a,b'')) ''a'') ''c''\<rparr>)
          (getVertices collision ''a'')) = Some [''c'']"
    by code_simp
  have b: "map_option (\<lambda>v. v\<lparr>v_classes := v_classes v @
            replicate (count_list (map normalized (split_comma ''a,b'')) ''b'') ''c''\<rparr>)
          (getVertices collision ''b'') = None"
    by code_simp
  have p: "0 < length (getSubGraphs collision)" by code_simp
  have g: "sg_classes ((getSubGraphs collision ! 0)\<lparr>sg_classes := sg_classes (getSubGraphs collision ! 0) @
              replicate (length (filter (\<lambda>f. subGraphLookup collision (normalized f) = Some 0)
                                   (split_comma ''a,b''))) ''c''\<rparr>) = [''c'']"
    by code_simp
  have t: "fst (setClass ''a,b'' ''c'' collision) = Returned ()
      \<and> getVertices (snd (setClass ''a,b'' ''c'' collision)) k =
          map_option (\<lambda>v. v\<lparr>v_classes := v_classes v @
              replicate (count_list (map normalized (split_comma ''a,b'')) k) ''c''\<rparr>)
            (getVertices collision k)
      \<and> (0 < length (getSubGraphs collision) \<longrightarrow>
           getSubGraphs (snd (setClass ''a,b'' ''c'' collision)) ! 0 =
             (getSubGraphs collision ! 0)\<lparr>sg_classes := sg_classes (getSubGraphs collision ! 0) @
                replicate (length (filter (\<lambda>f. subGraphLookup collision (normalized f) = Some 0)
                                     (split_comma ''a,b''))) ''c''\<rparr>)" for k
    using h ho hb
      setClass_appends [where ids = "''a,b''" and className = "''c''" and st = collision
        and k = k and p = 0]
    by blast
  from t [of "''a''"] a have 1: "map_option v_classes (getVertices (snd (setClass ''a,b'' ''c'' collision)) ''a'') = Some [''c'']"
    by simp
  from t [of "''b''"] b have 2: "getVertices (snd (setClass ''a,b'' ''c'' collision)) ''b'' = None"
    by simp
  from t [of "''a''"] p g have 3: "sg_classes (getSubGraphs (snd (setClass ''a,b'' ''c'' collision)) ! 0) = [''c'']"
    by simp
  from t [of "''a''"] have 0: "fst (setClass ''a,b'' ''c'' collision) = Returned ()" by blast
  from h hb 0 1 2 3 show ?thesis by blast
qed

subsection \<open>Styles of edges\<close>

lemma isSubstringFrom_found:
  "0 \<le> i \<Longrightarrow> isSubstringFrom i str arr = - 1 \<longleftrightarrow> (\<forall>a \<in> set arr. \<not> contains str a)"
proof (induction arr arbitrary: i)
  case Nil
  show ?case by simp
next
  case (Cons a arr)
  have "0 \<le> i + 1" using Cons.prems by simp
  from Cons.IH [OF this] Cons.prems show ?case by auto
qed

lemma isSubstringInArray_found:
  "isSubstringInArray str arr = - 1 \<longleftrightarrow> \<not> (\<exists>a \<in> set arr. contains str a)"
  by (simp add: isSubstringInArray_def isSubstringFrom_found)

lemma fill_none_has_fill: "contains ''fill'' ''fill:none''"
  by code_simp

lemma isSubstringInArray_pushed: "isSubstringInArray ''fill'' (arr @ [''fill:none'']) \<noteq> - 1"
  using fill_none_has_fill by (simp add: isSubstringInArray_found)

lemma withFill_has_fill: "isSubstringInArray ''fill'' (withFill arr) \<noteq> - 1"
  by (simp add: withFill_def isSubstringInArray_pushed)

lemma withFill_idem: "withFill (withFill arr) = withFill arr"
  using withFill_has_fill [of arr] by (simp add: withFill_def)

lemma updateLink1_Default:
  "updateLink1 style Default st = (Returned (), st\<lparr>defaultStyle := Some style\<rparr>)"
  by (simp add: updateLink1_def)

lemma updateLink1_Idx:
  "inRange i (edges st) \<Longrightarrow>
   updateLink1 style (Idx i) st =
     (Returned (),
      st\<lparr>styleArrays := (styleArrays st)(style := withFill (styleArrays st style)),
         edges := (edges st)[nat i := (edges st ! nat i)\<lparr>e_style := Some style\<rparr>]\<rparr>)"
  by (simp add: updateLink1_def withFill_def Let_def)

lemma updateLink_loop:
  assumes "\<forall>i. Idx i \<in> set ps \<longrightarrow> inRange i (edges st)"
  shows "fst (forEach (updateLink1 style) ps st) = Returned ()
    \<and> styleArrays (snd (forEach (updateLink1 style) ps st)) =
        (if \<exists>i. Idx i \<in> set ps
         then (styleArrays st)(style := withFill (styleArrays st style))
         else styleArrays st)
    \<and> defaultStyle (snd (forEach (updateLink1 style) ps st)) =
        (if Default \<in> set ps then Some style else defaultStyle st)
    \<and> length (edges (snd (forEach (updateLink1 style) ps st))) = length (edges st)
    \<and> (\<forall>j < length (edges st).
          edges (snd (forEach (updateLink1 style) ps st)) ! j =
            (if Idx (int j) \<in> set ps then (edges st ! j)\<lparr>e_style := Some style\<rparr> else edges st ! j))"
  using assms
proof (induction ps arbitrary: st)
  case Nil
  show ?case by simp
next
  case (Cons pos ps)
  show ?case
  proof (cases pos)
    case Default
    define st1 where "st1 = st\<lparr>defaultStyle := Some style\<rparr>"
    have run: "forEach (updateLink1 style) (pos # ps) st = forEach (updateLink1 style) ps st1"
      by (simp add: Default updateLink1_Default st1_def)
    have "\<forall>i. Idx i \<in> set ps \<longrightarrow> inRange i (edges st1)"
      using Cons.prems by (simp add: st1_def)
    note IH = Cons.IH [OF this]
    show ?thesis
      unfolding run using IH by (simp add: st1_def Default)
  next
    case (Idx i)
    have r: "inRange i (edges st)" using Cons.prems Idx by simp
    define st1 where "st1 = st\<lparr>styleArrays := (styleArrays st)(style := withFill (styleArrays st style)),
         edges := (edges st)[nat i := (edges st ! nat i)\<lparr>e_style := Some style\<rparr>]\<rparr>"
    have run: "forEach (updateLink1 style) (pos # ps) st = forEach (updateLink1 style) ps st1"
      by (simp add: Idx updateLink1_Idx [OF r] st1_def)
    have "\<forall>i. Idx i \<in> set ps \<longrightarrow> inRange i (edges st1)"
      using Cons.prems by (simp add: st1_def inRange_def)
    note IH = Cons.IH [OF this]
    have ni: "nat i < length (edges st)" "int (nat i) = i" using r by (auto simp add: inRange_def)
    have e: "edges (snd (forEach (updateLink1 style) ps st1)) ! j =
            (if Idx (int j) \<in> set (pos # ps) then (edges st ! j)\<lparr>e_style := Some style\<rparr> else edges st ! j)"
      if j: "j < length (edges st)" for j
    proof -
      have "edges (snd (forEach (updateLink1 style) ps st1)) ! j =
            (if Idx (int j) \<in> set ps then (edges st1 ! j)\<lparr>e_style := Some style\<rparr> else edges st1 ! j)"
        using IH j by (simp add: st1_def)
      moreover have "edges st1 ! j = (if j = nat i then (edges st ! j)\<lparr>e_style := Some style\<rparr> else edges st ! j)"
        using j by (simp add: st1_def nth_list_update)
      moreover have "int j = i \<longleftrightarrow> j = nat i" using ni by auto
      ultimately show ?thesis by (auto simp add: Idx)
    qed
    have s: "styleArrays (snd (forEach (updateLink1 style) ps st1)) =
        (styleArrays st)(style := withFill (styleArrays st style))"
      using IH by (auto simp add: st1_def withFill_idem)
    have d: "defaultStyle (snd (forEach (updateLink1 style) ps st1)) =
        (if Default \<in> set (pos # ps) then Some style else defaultStyle st)"
      using IH by (simp add: st1_def Idx)
    have l: "length (edges (snd (forEach (updateLink1 style) ps st1))) = length (edges st)"
      using IH by (simp add: st1_def)
    have f: "fst (forEach (updateLink1 style) ps st1) = Returned ()" using IH by blast
    have ex: "\<exists>i. Idx i \<in> set (pos # ps)" using Idx by auto
    show ?thesis
      unfolding run using f s d l e ex by simp
  qed
qed


text \<open>
  A session with one edge and two style arrays: at address 0 an array no entry of which
  contains \<open>fill\<close>, at address 1 an array without a fill declaration, one entry of which
  contains \<open>fill\<close>.
\<close>

definition styled :: state where
  "styled = snd (addLink (Some ''a'') (Some ''b'')
       (Some \<lparr> t_type = Some ''arrow'', t_stroke = Some ''normal'', t_text = None \<rparr>) None
       ((init ''strict'')\<lparr>styleArrays := (\<lambda>r. [])(0 := [''stroke:#333''], 1 := [''fil:l'', ''xfillx''])\<rparr>))"

text \<open>
  Claim C9, as stated, fails for the sentinel: the test for a fill declaration and the
  \<open>push\<close> are in the branch for an edge position. A call with the positions \<open>['default']\<close>
  stores the style list as the fallback style as it is, without \<open>fill:none\<close>.
\<close>

theorem updateLink_default_counterexample:
  "defaultStyle (snd (updateLink [Default] 0 styled)) = Some 0
   \<and> styleArrays (snd (updateLink [Default] 0 styled)) 0 = [''stroke:#333'']
   \<and> isSubstringInArray ''fill'' (styleArrays (snd (updateLink [Default] 0 styled)) 0) = - 1"
  by code_simp

text \<open>
  Claim C9, amended. When every edge position of the list is in range, \<open>updateLink\<close>
  returns, every edge of the list and (for the sentinel) the fallback style refer to the
  caller's style array, no other style array changes, and
  \<^item> when the list has at least one edge position, \<open>fill:none\<close> is appended to the array,
    once, exactly when no entry of the array contains the four characters \<open>fill\<close>
    anywhere; so afterwards some entry contains \<open>fill\<close>. The test is for a substring, not
    for a fill declaration: an entry such as \<open>xfillx\<close> or \<open>fill-opacity:0.5\<close> suppresses
    the \<open>push\<close>. The fallback style set by a sentinel in the same call is this same array;
  \<^item> when the list has the sentinel only, the array is left as it is.
\<close>

theorem updateLink_fill:
  assumes "\<forall>i. Idx i \<in> set positions \<longrightarrow> inRange i (getEdges st)"
  shows "fst (updateLink positions style st) = Returned ()
    \<and> (\<forall>i. Idx i \<in> set positions \<longrightarrow>
          e_style (getEdges (snd (updateLink positions style st)) ! nat i) = Some style)
    \<and> (Default \<in> set positions \<longrightarrow> defaultStyle (snd (updateLink positions style st)) = Some style)
    \<and> ((\<exists>i. Idx i \<in> set positions) \<longrightarrow>
          styleArrays (snd (updateLink positions style st)) style =
            (if \<exists>a \<in> set (styleArrays st style). contains ''fill'' a
             then styleArrays st style else styleArrays st style @ [''fill:none''])
          \<and> (\<exists>a \<in> set (styleArrays (snd (updateLink positions style st)) style). contains ''fill'' a))
    \<and> ((\<forall>i. Idx i \<notin> set positions) \<longrightarrow>
          styleArrays (snd (updateLink positions style st)) = styleArrays st)
    \<and> (other \<noteq> style \<longrightarrow>
          styleArrays (snd (updateLink positions style st)) other = styleArrays st other)"
proof -
  have a: "\<forall>i. Idx i \<in> set positions \<longrightarrow> inRange i (edges st)"
    using assms by (simp add: getEdges_def)
  note l = updateLink_loop [OF a, of style]
  have e: "e_style (getEdges (snd (updateLink positions style st)) ! nat i) = Some style"
    if i: "Idx i \<in> set positions" for i
  proof -
    from a i have r: "inRange i (edges st)" by blast
    then have n: "nat i < length (edges st)" and ii: "int (nat i) = i" by (auto simp add: inRange_def)
    from l n have "edges (snd (forEach (updateLink1 style) positions st)) ! nat i =
            (if Idx (int (nat i)) \<in> set positions then (edges st ! nat i)\<lparr>e_style := Some style\<rparr> else edges st ! nat i)"
      by blast
    with i ii show ?thesis by (simp add: updateLink_def getEdges_def)
  qed
  have w: "withFill (styleArrays st style) =
            (if \<exists>a \<in> set (styleArrays st style). contains ''fill'' a
             then styleArrays st style else styleArrays st style @ [''fill:none''])"
    by (simp add: withFill_def isSubstringInArray_found)
  have f: "\<exists>a \<in> set (withFill (styleArrays st style)). contains ''fill'' a"
    using withFill_has_fill [of "styleArrays st style"] by (simp add: isSubstringInArray_found)
  have s: "styleArrays (snd (updateLink positions style st)) =
        (if \<exists>i. Idx i \<in> set positions
         then (styleArrays st)(style := withFill (styleArrays st style))
         else styleArrays st)"
    using l by (simp add: updateLink_def)
  have 1: "fst (updateLink positions style st) = Returned ()"
    using l by (simp add: updateLink_def)
  have 2: "Default \<in> set positions \<longrightarrow> defaultStyle (snd (updateLink positions style st)) = Some style"
    using l by (simp add: updateLink_def)
  have 3: "(\<exists>i. Idx i \<in> set positions) \<longrightarrow>
          styleArrays (snd (updateLink positions style st)) style =
            (if \<exists>a \<in> set (styleArrays st style). contains ''fill'' a
             then styleArrays st style else styleArrays st style @ [''fill:none''])
          \<and> (\<exists>a \<in> set (styleArrays (snd (updateLink positions style st)) style). contains ''fill'' a)"
    using f unfolding w [symmetric] s by simp
  have 4: "(\<forall>i. Idx i \<notin> set positions) \<longrightarrow>
          styleArrays (snd (updateLink positions style st)) = styleArrays st"
    unfolding s by simp
  have 5: "other \<noteq> style \<longrightarrow>
          styleArrays (snd (updateLink positions style st)) other = styleArrays st other"
    unfolding s by simp
  from 1 e 2 3 4 5 show ?thesis by blast
qed

theorem updateLink_fill_witness:
  "inRange 0 (getEdges styled)
   \<and> fst (updateLink [Default, Idx 0] 0 styled) = Returned ()
   \<and> defaultStyle (snd (updateLink [Default, Idx 0] 0 styled)) = Some 0
   \<and> e_style (getEdges (snd (updateLink [Default, Idx 0] 0 styled)) ! 0) = Some 0
   \<and> styleArrays (snd (updateLink [Default, Idx 0] 0 styled)) 0 = [''stroke:#333'', ''fill:none'']
   \<and> styleArrays (snd (updateLink [Idx 0] 1 styled)) 1 = [''fil:l'', ''xfillx'']"
proof -
  have r: "inRange 0 (getEdges styled)" by code_simp
  have h: "\<forall>i. Idx i \<in> set [Default, Idx 0] \<longrightarrow> inRange i (getEdges styled)"
    using r by simp
  have h': "\<forall>i. Idx i \<in> set [Idx 0] \<longrightarrow> inRange i (getEdges styled)"
    using r by simp
  have a: "(if \<exists>a \<in> set (styleArrays styled 0). contains ''fill'' a
             then styleArrays styled 0 else styleArrays styled 0 @ [''fill:none''])
           = [''stroke:#333'', ''fill:none'']"
    by code_simp
  have b: "(if \<exists>a \<in> set (styleArrays styled 1). contains ''fill'' a
             then styleArrays styled 1 else styleArrays styled 1 @ [''fill:none''])
           = [''fil:l'', ''xfillx'']"
    by code_simp
  note t = updateLink_fill [OF h, of 0]
  note t' = updateLink_fill [OF h', of 1]
  from t have 1: "fst (updateLink [Default, Idx 0] 0 styled) = Returned ()" by blast
  from t have 2: "defaultStyle (snd (updateLink [Default, Idx 0] 0 styled)) = Some 0" by simp
  from t have "e_style (getEdges (snd (updateLink [Default, Idx 0] 0 styled)) ! nat 0) = Some 0" by simp
  then have 3: "e_style (getEdges (snd (updateLink [Default, Idx 0] 0 styled)) ! 0) = Some 0" by simp
  from t a have 4: "styleArrays (snd (updateLink [Default, Idx 0] 0 styled)) 0 = [''stroke:#333'', ''fill:none'']"
    by simp
  from t' b have 5: "styleArrays (snd (updateLink [Idx 0] 1 styled)) 1 = [''fil:l'', ''xfillx'']"
    by simp
  from r 1 2 3 4 5 show ?thesis by blast
qed

subsection \<open>The subgraph indexer\<close>

lemma walked_refl: "walked st st"
  by (simp add: walked_def)

lemma walked_trans: "walked a b \<Longrightarrow> walked b c \<Longrightarrow> walked a c"
  unfolding walked_def by (intro conjI) (simp, simp, fastforce)

lemma walked_count: "walked st (st\<lparr>secCount := secCount st + 1\<rparr>)"
  by (simp add: walked_def)

lemma walked_record:
  "secCount st + 1 \<le> 2000 \<Longrightarrow>
   walked st (st\<lparr>secCount := secCount st + 1,
                 posCrossRef := (posCrossRef st)(secCount st + 1 \<mapsto> pos)\<rparr>)"
  by (auto simp add: walked_def)

lemma children_walked:
  assumes rec: "\<And>pos st r st'. indexNodes2 d id1 pos st = Some (r, st') \<Longrightarrow> walked st st'"
  shows "children d id1 ns pc st = Some (r, st') \<Longrightarrow> walked st st'"
proof (induction ns arbitrary: pc st)
  case Nil
  then show ?case by (simp add: walked_refl)
next
  case (Cons n ns)
  show ?case
  proof (cases "getPosForId st n \<ge> 0")
    case False
    with Cons.prems have "children d id1 ns pc st = Some (r, st')" by simp
    then show ?thesis by (rule Cons.IH)
  next
    case True
    show ?thesis
    proof (cases "indexNodes2 d id1 (nat (getPosForId st n)) st")
      case None
      with True Cons.prems show ?thesis by simp
    next
      case (Some a)
      obtain r1 st1 where a: "a = (r1, st1)" by (cases a)
      have w1: "walked st st1" using Some a by (auto intro: rec)
      show ?thesis
      proof (cases r1)
        case (Threw e)
        with True Some a Cons.prems w1 show ?thesis by auto
      next
        case Beyond
        with True Some a Cons.prems w1 show ?thesis by auto
      next
        case (Returned res)
        show ?thesis
        proof (cases res)
          case None
          with True Some a Returned Cons.prems w1 show ?thesis by auto
        next
          case (Some w)
          show ?thesis
          proof (cases "result w")
            case True
            with \<open>getPosForId st n \<ge> 0\<close> \<open>indexNodes2 d id1 (nat (getPosForId st n)) st = Some a\<close>
              a Returned Some Cons.prems w1 show ?thesis by auto
          next
            case False
            with \<open>getPosForId st n \<ge> 0\<close> \<open>indexNodes2 d id1 (nat (getPosForId st n)) st = Some a\<close>
              a Returned Some Cons.prems
            have "children d id1 ns (pc + count w) st1 = Some (r, st')" by simp
            then have "walked st1 st'" by (rule Cons.IH)
            with w1 show ?thesis by (rule walked_trans)
          qed
        qed
      qed
    qed
  qed
qed

lemma indexNodes2_walked: "indexNodes2 d id1 pos st = Some (r, st') \<Longrightarrow> walked st st'"
proof (induction d arbitrary: pos st r st')
  case 0
  then show ?case by simp
next
  case (Suc d)
  show ?case
  proof (cases "length (subGraphs st) \<le> pos")
    case True
    with Suc.prems show ?thesis by (auto simp add: walked_refl)
  next
    case inr: False
    show ?thesis
    proof (cases "secCount st + 1 > 2000")
      case True
      with inr Suc.prems show ?thesis by (auto simp add: Let_def walked_count)
    next
      case False
      define st2 where "st2 = st\<lparr>secCount := secCount st + 1,
                 posCrossRef := (posCrossRef st)(secCount st + 1 \<mapsto> pos)\<rparr>"
      have w2: "walked st st2" unfolding st2_def using False by (intro walked_record) simp
      show ?thesis
      proof (cases "sg_id (subGraphs st ! pos) = id1")
        case True
        with inr False Suc.prems w2 show ?thesis by (auto simp add: Let_def st2_def)
      next
        case ne: False
        with inr False Suc.prems
        have c: "children d id1 (sg_nodes (subGraphs st ! pos)) 1 st2 = Some (r, st')"
          by (simp add: Let_def st2_def)
        have "walked st2 st'"
        proof (rule children_walked)
          show "children d id1 (sg_nodes (subGraphs st ! pos)) 1 st2 = Some (r, st')" by (rule c)
        next
          fix p s r1 s1
          assume "indexNodes2 d id1 p s = Some (r1, s1)"
          then show "walked s s1" by (rule Suc.IH)
        qed
        with w2 show ?thesis by (rule walked_trans)
      qed
    qed
  qed
qed

lemma children_total:
  assumes rec: "\<And>pos st. max 1 (2001 - secCount st) \<le> int d \<Longrightarrow> indexNodes2 d id1 pos st \<noteq> None"
  shows "max 1 (2001 - secCount st) \<le> int d \<Longrightarrow> children d id1 ns pc st \<noteq> None"
proof (induction ns arbitrary: pc st)
  case Nil
  show ?case by simp
next
  case (Cons n ns)
  show ?case
  proof (cases "getPosForId st n \<ge> 0")
    case False
    with Cons.IH [OF Cons.prems] show ?thesis by simp
  next
    case True
    from rec [OF Cons.prems] obtain r1 st1
      where a: "indexNodes2 d id1 (nat (getPosForId st n)) st = Some (r1, st1)" by fastforce
    then have "walked st st1" by (rule indexNodes2_walked)
    then have "secCount st \<le> secCount st1" by (simp add: walked_def)
    with Cons.prems have "max 1 (2001 - secCount st1) \<le> int d" by simp
    from Cons.IH [OF this] True a show ?thesis
      by (simp split: outcome.splits option.splits)
  qed
qed

lemma indexNodes2_total:
  "max 1 (2001 - secCount st) \<le> int d \<Longrightarrow> indexNodes2 d id1 pos st \<noteq> None"
proof (induction d arbitrary: pos st)
  case 0
  then show ?case by simp
next
  case (Suc d)
  show ?case
  proof (cases "length (subGraphs st) \<le> pos \<or> secCount st + 1 > 2000 \<or> sg_id (subGraphs st ! pos) = id1")
    case True
    then show ?thesis by (auto simp add: Let_def)
  next
    case False
    define st2 where "st2 = st\<lparr>secCount := secCount st + 1,
                 posCrossRef := (posCrossRef st)(secCount st + 1 \<mapsto> pos)\<rparr>"
    have "max 1 (2001 - secCount st2) \<le> int d"
      using False Suc.prems by (simp add: st2_def)
    have m: "max 1 (2001 - secCount st2) \<le> int d"
      using False Suc.prems by (simp add: st2_def)
    have "children d id1 (sg_nodes (subGraphs st ! pos)) 1 st2 \<noteq> None"
    proof (rule children_total)
      show "max 1 (2001 - secCount st2) \<le> int d" by (rule m)
    next
      fix p and s :: state
      assume "max 1 (2001 - secCount s) \<le> int d"
      then show "indexNodes2 d id1 p s \<noteq> None" by (rule Suc.IH)
    qed
    with False show ?thesis by (simp add: Let_def st2_def)
  qed
qed

text \<open>A result does not depend on the depth bound: a larger bound gives the same result.\<close>

lemma children_deeper:
  assumes rec: "\<And>pos st x. indexNodes2 d id1 pos st = Some x \<Longrightarrow> indexNodes2 d' id1 pos st = Some x"
  shows "children d id1 ns pc st = Some x \<Longrightarrow> children d' id1 ns pc st = Some x"
proof (induction ns arbitrary: pc st)
  case Nil
  then show ?case by simp
next
  case (Cons n ns)
  show ?case
  proof (cases "getPosForId st n \<ge> 0")
    case False
    with Cons.prems have "children d id1 ns pc st = Some x" by simp
    then have "children d' id1 ns pc st = Some x" by (rule Cons.IH)
    with False show ?thesis by simp
  next
    case True
    show ?thesis
    proof (cases "indexNodes2 d id1 (nat (getPosForId st n)) st")
      case None
      with True Cons.prems show ?thesis by simp
    next
      case (Some a)
      then have a': "indexNodes2 d' id1 (nat (getPosForId st n)) st = Some a" by (rule rec)
      obtain r1 st1 where a: "a = (r1, st1)" by (cases a)
      show ?thesis
      proof (cases "\<exists>w. r1 = Returned (Some w) \<and> \<not> result w")
        case False
        with True Some a' a Cons.prems show ?thesis
          by (auto split: outcome.splits option.splits)
      next
        case w: True
        then obtain w where "r1 = Returned (Some w)" and "\<not> result w" by blast
        with True Some a Cons.prems
        have "children d id1 ns (pc + count w) st1 = Some x" by simp
        then have "children d' id1 ns (pc + count w) st1 = Some x" by (rule Cons.IH)
        with True a' a \<open>r1 = Returned (Some w)\<close> \<open>\<not> result w\<close> show ?thesis by simp
      qed
    qed
  qed
qed

lemma indexNodes2_Suc_deeper:
  "indexNodes2 d id1 pos st = Some x \<Longrightarrow> indexNodes2 (Suc d) id1 pos st = Some x"
proof (induction d arbitrary: pos st x)
  case 0
  then show ?case by simp
next
  case (Suc d)
  show ?case
  proof (cases "length (subGraphs st) \<le> pos \<or> secCount st + 1 > 2000 \<or> sg_id (subGraphs st ! pos) = id1")
    case True
    with Suc.prems show ?thesis by (auto simp add: Let_def)
  next
    case False
    define st2 where "st2 = st\<lparr>secCount := secCount st + 1,
                 posCrossRef := (posCrossRef st)(secCount st + 1 \<mapsto> pos)\<rparr>"
    from False Suc.prems have c: "children d id1 (sg_nodes (subGraphs st ! pos)) 1 st2 = Some x"
      by (simp add: Let_def st2_def)
    have "children (Suc d) id1 (sg_nodes (subGraphs st ! pos)) 1 st2 = Some x"
    proof (rule children_deeper)
      show "children d id1 (sg_nodes (subGraphs st ! pos)) 1 st2 = Some x" by (rule c)
    next
      fix p s y
      assume "indexNodes2 d id1 p s = Some y"
      then show "indexNodes2 (Suc d) id1 p s = Some y" by (rule Suc.IH)
    qed
    with False show ?thesis
      by (simp add: Let_def st2_def del: children.simps indexNodes2.simps)
        (simp add: Let_def)
  qed
qed

lemma indexNodes2_deeper:
  assumes "indexNodes2 d id1 pos st = Some x"
  shows "indexNodes2 (d + k) id1 pos st = Some x"
  using assms by (induction k) (simp_all add: indexNodes2_Suc_deeper del: indexNodes2.simps)

lemma indexNodes_deeper:
  assumes "indexNodes d st = Some x"
  shows "indexNodes (d + k) st = Some x"
proof (cases "length (subGraphs st) > 0")
  case False
  with assms show ?thesis by (simp add: indexNodes_def Let_def)
next
  case True
  with assms obtain y
    where y: "indexNodes2 d ''none'' (length (subGraphs st) - 1) (st\<lparr>secCount := - 1\<rparr>) = Some y"
    by (auto simp add: indexNodes_def Let_def split: option.splits)
  then have "indexNodes2 (d + k) ''none'' (length (subGraphs st) - 1) (st\<lparr>secCount := - 1\<rparr>) = Some y"
    by (rule indexNodes2_deeper)
  with y assms True show ?thesis by (simp add: indexNodes_def Let_def)
qed

text \<open>
  The walk ends whatever the membership structure is: with a depth bound of 2002 or
  more \<open>indexNodes\<close> has a result, and the table has entries at the indices 0 to 2000
  at most.
\<close>

lemma indexNodes_total: "2002 \<le> depth \<Longrightarrow> indexNodes depth st \<noteq> None"
proof -
  assume d: "2002 \<le> depth"
  have "indexNodes2 depth ''none'' (length (subGraphs st) - 1) (st\<lparr>secCount := - 1\<rparr>) \<noteq> None"
    by (rule indexNodes2_total) (use d in simp)
  then show ?thesis
    by (auto simp add: indexNodes_def Let_def split: outcome.splits)
qed

lemma indexNodes_bounded:
  assumes "indexNodes depth st = Some (r, st')"
  shows "dom (posCrossRef st') \<subseteq> dom (posCrossRef st) \<union> {0 .. 2000}"
proof (cases "length (subGraphs st) > 0")
  case False
  with assms show ?thesis by (auto simp add: indexNodes_def Let_def)
next
  case True
  with assms obtain r2 where "indexNodes2 depth ''none'' (length (subGraphs st) - 1) (st\<lparr>secCount := - 1\<rparr>) = Some (r2, st')"
    by (auto simp add: indexNodes_def Let_def split: option.splits outcome.splits)
  then have "walked (st\<lparr>secCount := - 1\<rparr>) st'" by (rule indexNodes2_walked)
  then show ?thesis by (simp add: walked_def)
qed


text \<open>The cycle of the specification: subgraph \<open>A\<close> contains \<open>B\<close>, and \<open>B\<close> contains \<open>A\<close>.\<close>

definition cyclic :: state where
  "cyclic = mutateAll (\<lambda>u. u)
     [AddSubGraph (Some ''A'') [[''B'']] (Some ''A''),
      AddSubGraph (Some ''B'') [[''A'']] (Some ''B'')] (init ''strict'')"

lemma subGraphs_cyclic:
  "subGraphs cyclic =
     [\<lparr> sg_id = ''A'', sg_nodes = [''B''], sg_title = ''A'', sg_classes = [] \<rparr>,
      \<lparr> sg_id = ''B'', sg_nodes = [''A''], sg_title = ''B'', sg_classes = [] \<rparr>]"
  by code_simp

lemma posCrossRef_addSubGraph: "posCrossRef (snd (addSubGraph i l t st)) = posCrossRef st"
  using addSubGraph_state [of i l t st] by (auto simp add: leave_def)

lemma posCrossRef_cyclic: "posCrossRef cyclic = Map.empty"
  by (simp add: cyclic_def mutateAll_def posCrossRef_addSubGraph init_def)

lemma cyclic_walk:
  assumes "subGraphs st = subGraphs cyclic" and "pos < 2" and "secCount st \<le> 2000"
    and "max 1 (2001 - secCount st) \<le> int d"
  shows "\<exists>st'. indexNodes2 d ''none'' pos st =
            Some (if secCount st = 2000 then Returned None else Threw TypeError, st')
          \<and> dom (posCrossRef st') = dom (posCrossRef st) \<union> {secCount st + 1 .. 2000}"
  using assms
proof (induction d arbitrary: pos st)
  case 0
  then show ?case by simp
next
  case (Suc d)
  note sg = Suc.prems(1) [unfolded subGraphs_cyclic]
  show ?case
  proof (cases "secCount st = 2000")
    case True
    with sg Suc.prems(2) show ?thesis by (simp add: Let_def)
  next
    case False
    with Suc.prems(3) have lt: "secCount st < 2000" by simp
    define st2 where "st2 = st\<lparr>secCount := secCount st + 1,
                 posCrossRef := (posCrossRef st)(secCount st + 1 \<mapsto> pos)\<rparr>"
    have sg2: "subGraphs st2 = subGraphs cyclic" using Suc.prems(1) by (simp add: st2_def)
    have le2: "secCount st2 \<le> 2000" using lt by (simp add: st2_def)
    have m2: "max 1 (2001 - secCount st2) \<le> int d" using lt Suc.prems(4) by (simp add: st2_def)
    have other: "1 - pos < 2" by simp
    from Suc.IH [OF sg2 other le2 m2] obtain st'
      where w: "indexNodes2 d ''none'' (1 - pos) st2 =
            Some (if secCount st2 = 2000 then Returned None else Threw TypeError, st')"
        and dm: "dom (posCrossRef st') = dom (posCrossRef st2) \<union> {secCount st2 + 1 .. 2000}"
      by blast
    have pos: "pos = 0 \<or> pos = 1" using Suc.prems(2) by auto
    have nodes: "sg_nodes (subGraphs st ! pos) = [if pos = 0 then ''B'' else ''A'']"
      and idn: "sg_id (subGraphs st ! pos) \<noteq> ''none''"
      using pos sg by auto
    have child: "getPosForId st2 (if pos = 0 then ''B'' else ''A'') = int (1 - pos)"
      using pos sg2 by (auto simp add: getPosForId_def subGraphs_cyclic)
    have ch: "children d ''none'' [if pos = 0 then ''B'' else ''A''] 1 st2 = Some (Threw TypeError, st')"
      using w by (simp add: child del: One_nat_def)
    have idn2: "sg_id (subGraphs st2 ! pos) \<noteq> ''none''" using idn by (simp add: st2_def)
    have run: "indexNodes2 (Suc d) ''none'' pos st = Some (Threw TypeError, st')"
      using lt sg Suc.prems(2) nodes idn2 ch
      by (simp add: Let_def st2_def [symmetric] del: children.simps)
    have "dom (posCrossRef st') = dom (posCrossRef st) \<union> {secCount st + 1 .. 2000}"
      unfolding dm using lt by (auto simp add: st2_def)
    with run False show ?thesis by simp
  qed
qed

text \<open>
  Claim C1 on the cycle of the specification. The walk does end, but not in silence: when
  the counter passes 2000, \<open>indexNodes2\<close> returns \<open>undefined\<close>, the caller reads
  \<open>res.result\<close>, and \<open>indexNodes\<close> ends with a \<open>TypeError\<close>. The table then has an entry
  at every index from 0 to 2000, the index 2000 included.
\<close>

theorem indexNodes_cycle_throws:
  assumes "2002 \<le> depth"
  shows "\<exists>st'. indexNodes depth cyclic = Some (Threw TypeError, st')
     \<and> (\<forall>i. getDepthFirstPos st' i \<noteq> None \<longleftrightarrow> 0 \<le> i \<and> i \<le> 2000)"
proof -
  define st1 where "st1 = cyclic\<lparr>secCount := - 1\<rparr>"
  have sg: "subGraphs st1 = subGraphs cyclic" by (simp add: st1_def)
  have m: "max 1 (2001 - secCount st1) \<le> int depth" using assms by (simp add: st1_def)
  have "secCount st1 \<le> 2000" by (simp add: st1_def)
  from cyclic_walk [OF sg _ this m, of 1] obtain st'
    where w: "indexNodes2 depth ''none'' 1 st1 = Some (Threw TypeError, st')"
      and dm: "dom (posCrossRef st') = dom (posCrossRef st1) \<union> {secCount st1 + 1 .. 2000}"
    by (auto simp add: st1_def)
  have "indexNodes depth cyclic = Some (Threw TypeError, st')"
    using w by (simp add: indexNodes_def Let_def st1_def [symmetric] sg subGraphs_cyclic)
  moreover have "dom (posCrossRef st') = {0 .. 2000}"
    unfolding dm by (simp add: st1_def posCrossRef_cyclic)
  then have "\<forall>i. getDepthFirstPos st' i \<noteq> None \<longleftrightarrow> 0 \<le> i \<and> i \<le> 2000"
    by (auto simp add: getDepthFirstPos_def dom_def)
  ultimately show ?thesis by blast
qed

theorem indexNodes_cycle_throws_witness:
  "\<exists>st'. indexNodes 2002 cyclic = Some (Threw TypeError, st')
     \<and> getDepthFirstPos st' 2000 \<noteq> None \<and> getDepthFirstPos st' 2001 = None"
proof -
  have h: "(2002::nat) \<le> 2002" by simp
  from indexNodes_cycle_throws [OF h] obtain st'
    where a: "indexNodes 2002 cyclic = Some (Threw TypeError, st')"
      and b: "\<forall>i. getDepthFirstPos st' i \<noteq> None \<longleftrightarrow> 0 \<le> i \<and> i \<le> 2000"
    by blast
  from b [THEN spec, of 2000] have "getDepthFirstPos st' 2000 \<noteq> None" by simp
  moreover from b [THEN spec, of 2001] have "getDepthFirstPos st' 2001 = None" by simp
  ultimately show ?thesis using a by blast
qed

end
